theory Spec2Isabelle
  imports Complex_Main "HOL-Library.Word"
begin

unbundle bit_operations_syntax

section \<open>HANIMAT vending machine firmware: the transaction core of main.cpp\<close>

text \<open>
  The firmware is one translation unit of global variables and functions that mutate
  them. The model keeps the globals in one record, \<open>machine\<close>, and every function
  of main.cpp becomes a function from the machine to the machine (and a return value,
  where the C++ function has one).

  What the firmware reads from its surroundings is an argument of the model:
  \<^item> \<open>millis()\<close> is a 32-bit unsigned counter on the ESP32 (\<open>unsigned long\<close>);
    differences of two readings wrap around modulo \<open>2 ^ 32\<close>, as \<open>32 word\<close>
    subtraction does. A function takes the reading as an argument; the few readings
    made inside one call are given the same value, except after the three-second
    error dwell of \<open>displayErrorMessage\<close>, which has a reading of its own;
  \<^item> \<open>Wire.endTransmission()\<close> returns a byte, 0 for an acknowledged transfer;
  \<^item> \<open>server.handleClient()\<close> inside the error dwell runs whatever administration
    request arrives meanwhile: its net effect on the globals is the function \<open>web\<close>
    of the environment;
  \<^item> the offline switch, the state of the WiFi link and the result of
    \<open>bot.sendMessage\<close> decide what becomes of a Telegram message;
  \<^item> the keypad columns read while a row is driven are a function of row and column.

  What the firmware does to its surroundings (log lines, tones, drawings, Telegram
  messages, bus transfers, writes to the Preferences store) is appended to the
  field \<open>out\<close>, oldest first. The bill-inhibit pin is the field \<open>billInhibit\<close>
  (\<open>True\<close> for HIGH, the acceptor inhibited).

  \<open>credit\<close> and the prices are C++ \<open>float\<close>s. The model computes with them as
  real numbers: rounding, infinities and NaN of the binary format are not modelled.
  \<open>int\<close> variables are modelled as unbounded integers; signed overflow is undefined
  behaviour in C++ and no function below is used outside the 32-bit range.
\<close>

subsection \<open>Constants and types\<close>

type_synonym millis = "32 word"
type_synonym byte = "8 word"

definition MAX_SLOTS :: int where
  "MAX_SLOTS = 16"

definition KEYPAD_ROWS :: nat where
  "KEYPAD_ROWS = 4"

definition KEYPAD_COLS :: nat where
  "KEYPAD_COLS = 3"

definition KEYPAD_DEBOUNCE_PERIOD :: millis where
  "KEYPAD_DEBOUNCE_PERIOD = 50"

text \<open>\<open>pulseValues\<close>: cents for 0, 1, ..., 6 coin pulses.\<close>

definition pulseValues :: "int list" where
  "pulseValues = [0, 0, 10, 20, 50, 100, 200]"

text \<open>\<open>billValues\<close>: euros for 0, 1, ..., 16 bill pulses.\<close>

definition billValues :: "int list" where
  "billValues = [0, 0, 0, 0, 5, 0, 0, 0, 10, 0, 0, 0, 0, 0, 0, 0, 20]"

text \<open>The keypad matrix \<open>keys[KEYPAD_ROWS][KEYPAD_COLS]\<close>.\<close>

definition keys :: "string list" where
  "keys = [''123'', ''456'', ''789'', ''*0#'']"

text \<open>The value 0 of a C \<open>char\<close>: no key.\<close>

definition NOKEY :: char where
  "NOKEY = CHR 0x00"

datatype CurrentSystemState = IDLE | USER_INTERACTION | ERROR_DISPLAY | OTA_UPDATE

record DispenseJob =
  active :: bool
  slot :: int
  startTime :: millis
  relayActivated :: bool

subsection \<open>Outputs\<close>

text \<open>The two-line messages of \<open>displayErrorMessage\<close>, by their call sites.\<close>

datatype error_message =
    ErrSlotLocked int
  | ErrSlotEmpty int
  | ErrCreditTooLow
  | ErrNoSlotChosen
  | ErrSlotInvalid string
  | ErrBoardOffline
  | ErrPurchaseAborted

text \<open>The messages given to \<open>sendTelegramMessage\<close>, by their call sites.\<close>

datatype notification = SaleMessage int | AlmostEmptyMessage int | EmptyMessage

text \<open>The lines given to \<open>logMessage\<close>, by their call sites.\<close>

datatype log_line =
    LogBoardUnreachable byte
  | LogTelegramDisabled
  | LogTelegramOffline
  | LogTelegramSending notification
  | LogTelegramSent
  | LogTelegramFailed
  | LogTelegramNotConfigured
  | LogKey char
  | LogBuffer string
  | LogFinalizing string
  | LogPurchaseAttempt int real real
  | LogStarReset
  | LogSelection string int
  | LogSlotSelected int
  | LogSelectionFinal string
  | LogWaitSecondDigit
  | LogInvalidRelaySlot int
  | LogRelaySent int bool
  | LogRelayFailed int byte
  | LogScheduleCalled int
  | LogJobAlreadyActive
  | LogJobScheduled int
  | LogActivationError int
  | LogPurchaseComplete int real
  | LogDispenseElapsed int
  | LogCoinProcessing int
  | LogCoinAccepted int int real
  | LogCoinZeroValue int
  | LogCoinRejected int
  | LogBillNoise "32 word"
  | LogBillProcessing int
  | LogBillAccepted int int real
  | LogBillZeroValue int
  | LogBillRejected int
  | LogDisplayError error_message
  | LogStockHigh
  | LogWebCreditAdjusted real real
  | LogWebCreditReset

datatype sound = KeyBeep | ErrorSound | ThankYouMelody | CoinTone | BillTone

datatype screen = ScreenPreparing int | ScreenThanks int | ScreenError error_message

datatype stored = StoredCredit real | StoredAvail int bool

datatype http_reply = Reply nat

datatype effect =
    Log log_line
  | Sound sound
  | Draw screen
  | Telegram notification
  | BusProbe
  | BusWrite byte byte
  | Persist stored
  | Http http_reply

subsection \<open>The global variables\<close>

record machine =
  COIN_PROCESSING_DELAY :: millis
  BILL_GROUP_PROCESSING_TIMEOUT_MS :: millis
  DISPENSE_RELAY_ON_TIME :: millis
  currentSystemState :: CurrentSystemState
  slotSelectedTime :: millis
  lastRelayChangeTime :: millis
  lastUserInteractionTime :: millis
  expanderOutputStates :: "16 word"
  lastPhysicallyPressedKey :: char
  lastReturnedKey :: char
  lastKeyPressTime :: millis
  slotPrices :: "real list"
  slotAvailable :: "bool list"
  slotLocked :: "bool list"
  activeSlots :: int
  almostEmptyThreshold :: int
  almostEmptyNotificationSent :: bool
  emptyNotificationSent :: bool
  telegramEnabled :: bool
  telegramNotifyOnSale :: bool
  telegramNotifyAlmostEmpty :: bool
  telegramNotifyEmpty :: bool
  telegramBotToken :: string
  telegramChatId :: string
  credit :: real
  coinPulseCount :: int
  lastCoinPulseTime :: millis
  billAcceptorPulseCount :: "32 word"
  lastBillPulseEdgeTime :: millis
  keypadInputBuffer :: string
  lastKeypadInputTime :: millis
  selectedSlot :: int
  isAuthenticated :: bool
  lastActivityTimeWeb :: millis
  displayNeedsUpdate :: bool
  dispenseJob :: DispenseJob
  billInhibit :: bool
  out :: "effect list"

text \<open>What one call reads from the surroundings.\<close>

record env =
  now :: millis
  dwellEnd :: millis
  web :: "machine \<Rightarrow> machine"
  wire1 :: byte
  wire2 :: byte
  offlineMode :: bool
  wifiConnected :: bool
  botSendOk :: bool

subsection \<open>Helper functions\<close>

definition emit :: "effect \<Rightarrow> machine \<Rightarrow> machine" where
  "emit x s = s\<lparr>out := out s @ [x]\<rparr>"

definition logMessage :: "log_line \<Rightarrow> machine \<Rightarrow> machine" where
  "logMessage msg s = emit (Log msg) s"

definition checkRelayBoardOnline :: "byte \<Rightarrow> machine \<Rightarrow> bool \<times> machine" where
  "checkRelayBoardOnline error s =
     (let s1 = emit BusProbe s;
          s2 = (if error \<noteq> 0 then logMessage (LogBoardUnreachable error) s1 else s1)
      in (error = 0, s2))"

text \<open>
  \<open>sendTelegramMessage\<close>: the effect \<open>Telegram\<close> is the call of \<open>bot.sendMessage\<close>,
  whose result is \<open>botSendOk\<close>.
\<close>

definition sendTelegramMessage :: "env \<Rightarrow> notification \<Rightarrow> machine \<Rightarrow> machine" where
  "sendTelegramMessage e message s =
     (if \<not> telegramEnabled s then logMessage LogTelegramDisabled s
      else if offlineMode e \<or> \<not> wifiConnected e then logMessage LogTelegramOffline s
      else if length (telegramBotToken s) > 0 \<and> length (telegramChatId s) > 0
      then
        let s1 = logMessage (LogTelegramSending message) s;
            s2 = emit (Telegram message) s1
        in if botSendOk e then logMessage LogTelegramSent s2
           else logMessage LogTelegramFailed s2
      else logMessage LogTelegramNotConfigured s)"

definition resetDisplayToDefault :: "millis \<Rightarrow> machine \<Rightarrow> machine" where
  "resetDisplayToDefault t s =
     s\<lparr>selectedSlot := -1,
       keypadInputBuffer := [],
       currentSystemState := IDLE,
       displayNeedsUpdate := True,
       lastUserInteractionTime := t\<rparr>"

definition displayErrorMessage :: "env \<Rightarrow> error_message \<Rightarrow> machine \<Rightarrow> machine" where
  "displayErrorMessage e msg s =
     (let s1 = logMessage (LogDisplayError msg) s;
          s2 = s1\<lparr>currentSystemState := ERROR_DISPLAY\<rparr>;
          s3 = emit (Draw (ScreenError msg)) s2;
          s4 = emit (Sound ErrorSound) s3;
          s5 = s4\<lparr>displayNeedsUpdate := False\<rparr>;
          s6 = web e s5
      in resetDisplayToDefault (dwellEnd e) s6)"

subsection \<open>Actuator driver\<close>

text \<open>
  \<open>expanderOutputStates[0]\<close> is a \<open>uint16_t\<close>; \<open>1 << slot\<close> is computed as an
  \<open>int\<close> and the result of \<open>|=\<close> and \<open>&=\<close> is cut back to 16 bits. For
  \<open>0 \<le> slot < 16\<close> that is \<open>push_bit\<close> on a 16-bit word.
\<close>

definition controlSlotRelay :: "byte \<Rightarrow> millis \<Rightarrow> int \<Rightarrow> bool \<Rightarrow> machine \<Rightarrow> bool \<times> machine" where
  "controlSlotRelay error t slt activate s =
     (if slt < 0 \<or> slt \<ge> MAX_SLOTS then (False, logMessage (LogInvalidRelaySlot slt) s)
      else
        let mask = (push_bit (nat slt) 1 :: 16 word);
            st = (if activate then expanderOutputStates s OR mask
                  else expanderOutputStates s AND NOT mask);
            s1 = s\<lparr>expanderOutputStates := st\<rparr>;
            relayCommand = (if slt < 8 then 0x02 else 0x03 :: byte);
            dataByte = (if slt < 8 then ucast (st AND 0xFF) else ucast (drop_bit 8 st) :: byte);
            s2 = emit (BusWrite relayCommand dataByte) s1
        in if error = 0
           then (True, (logMessage (LogRelaySent (slt + 1) activate) s2)\<lparr>lastRelayChangeTime := t\<rparr>)
           else (False, logMessage (LogRelayFailed (slt + 1) error) s2))"

subsection \<open>Dispense sequencer\<close>

definition scheduleDispense :: "env \<Rightarrow> int \<Rightarrow> machine \<Rightarrow> machine" where
  "scheduleDispense e slotToDispense s =
     (let s1 = logMessage (LogScheduleCalled (slotToDispense + 1)) s
      in if active (dispenseJob s1) then logMessage LogJobAlreadyActive s1
         else
           let (online, s2) = checkRelayBoardOnline (wire1 e) s1
           in if \<not> online then displayErrorMessage e ErrBoardOffline s2
              else
                let s3 = s2\<lparr>dispenseJob :=
                            \<lparr>active = True, slot = slotToDispense,
                             startTime = now e, relayActivated = False\<rparr>\<rparr>;
                    s4 = logMessage (LogJobScheduled (slotToDispense + 1)) s3;
                    s5 = s4\<lparr>currentSystemState := USER_INTERACTION\<rparr>;
                    s6 = emit (Draw (ScreenPreparing (slot (dispenseJob s5) + 1))) s5
                in s6\<lparr>displayNeedsUpdate := True\<rparr>)"

text \<open>
  \<open>countAvailableSlots\<close>: the loop over \<open>i = 0, ..., activeSlots - 1\<close> counts the
  slots that are available and not locked.
\<close>

definition countAvailableSlots :: "machine \<Rightarrow> int" where
  "countAvailableSlots s =
     int (length (filter (\<lambda>i. slotAvailable s ! i \<and> \<not> slotLocked s ! i)
                         [0..<nat (activeSlots s)]))"

definition checkOverallStockLevel :: "env \<Rightarrow> machine \<Rightarrow> machine" where
  "checkOverallStockLevel e s =
     (let totalAvailable = countAvailableSlots s
      in if telegramNotifyAlmostEmpty s \<and> totalAvailable > 0
            \<and> totalAvailable \<le> almostEmptyThreshold s \<and> \<not> almostEmptyNotificationSent s
         then (sendTelegramMessage e (AlmostEmptyMessage totalAvailable) s)
                \<lparr>almostEmptyNotificationSent := True, emptyNotificationSent := False\<rparr>
         else if telegramNotifyEmpty s \<and> totalAvailable = 0 \<and> \<not> emptyNotificationSent s
         then (sendTelegramMessage e EmptyMessage s)
                \<lparr>emptyNotificationSent := True, almostEmptyNotificationSent := True\<rparr>
         else if totalAvailable > almostEmptyThreshold s
         then (if almostEmptyNotificationSent s \<or> emptyNotificationSent s
               then logMessage LogStockHigh s else s)
                \<lparr>almostEmptyNotificationSent := False, emptyNotificationSent := False\<rparr>
         else s)"

text \<open>
  Step 2 of \<open>processDispenseJob\<close>: the relay is switched off once the open time has
  elapsed. \<open>error\<close> is the result of the bus transfer, should one be made.
\<close>

definition dispenseStep2 :: "byte \<Rightarrow> millis \<Rightarrow> machine \<Rightarrow> machine" where
  "dispenseStep2 error currentTime s =
     (if relayActivated (dispenseJob s)
         \<and> currentTime - startTime (dispenseJob s) \<ge> DISPENSE_RELAY_ON_TIME s
      then
        let s1 = logMessage (LogDispenseElapsed (slot (dispenseJob s) + 1)) s;
            (ok, s2) = controlSlotRelay error currentTime (slot (dispenseJob s1)) False s1;
            s3 = s2\<lparr>dispenseJob := (dispenseJob s2)\<lparr>active := False\<rparr>\<rparr>;
            s4 = s3\<lparr>billInhibit := False\<rparr>
        in resetDisplayToDefault currentTime s4
      else s)"

definition processDispenseJob :: "env \<Rightarrow> machine \<Rightarrow> machine" where
  "processDispenseJob e s =
     (if \<not> active (dispenseJob s) then s
      else
        let currentTime = now e;
            s0 = s\<lparr>currentSystemState := USER_INTERACTION\<rparr>
        in if \<not> relayActivated (dispenseJob s0)
           then
             let s1 = s0\<lparr>billInhibit := True\<rparr>;
                 (ok, s2) = controlSlotRelay (wire1 e) currentTime (slot (dispenseJob s1)) True s1
             in if \<not> ok
                then
                  let s3 = logMessage (LogActivationError (slot (dispenseJob s2) + 1)) s2;
                      s4 = displayErrorMessage e ErrPurchaseAborted s3;
                      s5 = s4\<lparr>dispenseJob := (dispenseJob s4)\<lparr>active := False\<rparr>\<rparr>;
                      s6 = s5\<lparr>billInhibit := False\<rparr>
                  in resetDisplayToDefault (dwellEnd e) s6
                else
                  let j = slot (dispenseJob s2);
                      c = credit s2 - slotPrices s2 ! nat j;
                      s3 = s2\<lparr>credit := (if c < 0 then 0 else c)\<rparr>;
                      s4 = s3\<lparr>slotAvailable := (slotAvailable s3)[nat j := False]\<rparr>;
                      s5 = logMessage (LogPurchaseComplete (j + 1) (credit s4)) s4;
                      s6 = emit (Persist (StoredCredit (credit s5))) s5;
                      s7 = emit (Persist (StoredAvail j (slotAvailable s6 ! nat j))) s6;
                      s8 = (if telegramNotifyOnSale s7
                            then sendTelegramMessage e (SaleMessage (j + 1)) s7 else s7);
                      s9 = checkOverallStockLevel e s8;
                      s10 = emit (Sound ThankYouMelody) s9;
                      s11 = emit (Draw (ScreenThanks (j + 1))) s10;
                      s12 = s11\<lparr>dispenseJob := (dispenseJob s11)
                                 \<lparr>relayActivated := True, startTime := currentTime\<rparr>\<rparr>;
                      s13 = s12\<lparr>displayNeedsUpdate := True\<rparr>
                  in dispenseStep2 (wire2 e) currentTime s13
           else dispenseStep2 (wire1 e) currentTime s0)"

text \<open>The ticks of the main loop, as far as the dispense job goes, one environment per tick.\<close>

fun dispenseTicks :: "env list \<Rightarrow> machine \<Rightarrow> machine" where
  "dispenseTicks [] s = s"
| "dispenseTicks (e # es) s = dispenseTicks es (processDispenseJob e s)"

text \<open>
  The administration requests served while an error message is shown are not part of
  the purchase. \<open>dwellFrame w\<close> says of their net effect \<open>w\<close> that they leave credit,
  stock, the dispense job and the inhibit line alone and take nothing back from what has
  been put out.
\<close>

definition dwellFrame :: "(machine \<Rightarrow> machine) \<Rightarrow> bool" where
  "dwellFrame w \<longleftrightarrow>
     (\<forall>x. credit (w x) = credit x \<and> slotAvailable (w x) = slotAvailable x
        \<and> dispenseJob (w x) = dispenseJob x \<and> billInhibit (w x) = billInhibit x
        \<and> set (out x) \<subseteq> set (out (w x)))"

subsection \<open>Pulse accumulator (coin channel)\<close>

definition coinAcceptorISR :: "millis \<Rightarrow> machine \<Rightarrow> machine" where
  "coinAcceptorISR t s = s\<lparr>coinPulseCount := coinPulseCount s + 1, lastCoinPulseTime := t\<rparr>"

definition processAcceptedCoin :: "millis \<Rightarrow> machine \<Rightarrow> machine" where
  "processAcceptedCoin t s =
     (if coinPulseCount s > 0 \<and> t - lastCoinPulseTime s > COIN_PROCESSING_DELAY s
      then
        let pulsesToProcess = coinPulseCount s;
            s1 = s\<lparr>coinPulseCount := 0\<rparr>;
            s2 = logMessage (LogCoinProcessing pulsesToProcess) s1
        in if pulsesToProcess > 0 \<and> pulsesToProcess < int (length pulseValues)
           then
             let coinValueCents = pulseValues ! nat pulsesToProcess
             in if coinValueCents > 0
                then
                  let s3 = s2\<lparr>credit := credit s2 + real_of_int coinValueCents / 100\<rparr>;
                      s4 = logMessage (LogCoinAccepted pulsesToProcess coinValueCents (credit s3)) s3;
                      s5 = emit (Persist (StoredCredit (credit s4))) s4;
                      s6 = s5\<lparr>displayNeedsUpdate := True,
                              lastUserInteractionTime := t,
                              currentSystemState := USER_INTERACTION\<rparr>
                  in emit (Sound CoinTone) s6
                else logMessage (LogCoinZeroValue pulsesToProcess) s2
           else logMessage (LogCoinRejected pulsesToProcess) s2
      else s)"

subsection \<open>Pulse accumulator (bill channel)\<close>

text \<open>
  \<open>billAcceptorPulseCount\<close> is an \<open>unsigned long\<close>; \<open>pulsesToProcess\<close> is an
  \<open>int\<close>, the signed reading of the same 32 bits.
\<close>

definition processBillAcceptorPulses :: "millis \<Rightarrow> machine \<Rightarrow> machine" where
  "processBillAcceptorPulses t s =
     (if t - lastRelayChangeTime s < 1000
      then
        if billAcceptorPulseCount s > 0
        then (logMessage (LogBillNoise (billAcceptorPulseCount s)) s)\<lparr>billAcceptorPulseCount := 0\<rparr>
        else s
      else
        let s9 =
          (if billAcceptorPulseCount s > 0
              \<and> t - lastBillPulseEdgeTime s > BILL_GROUP_PROCESSING_TIMEOUT_MS s
           then
             let pulsesToProcess = sint (billAcceptorPulseCount s);
                 s1 = s\<lparr>billAcceptorPulseCount := 0\<rparr>;
                 s2 = logMessage (LogBillProcessing pulsesToProcess) s1
             in if pulsesToProcess > 0 \<and> pulsesToProcess < int (length billValues)
                then
                  let billValueEuros = billValues ! nat pulsesToProcess
                  in if billValueEuros > 0
                     then
                       let s3 = s2\<lparr>credit := credit s2 + real_of_int billValueEuros\<rparr>;
                           s4 = logMessage (LogBillAccepted pulsesToProcess billValueEuros (credit s3)) s3;
                           s5 = emit (Persist (StoredCredit (credit s4))) s4;
                           s6 = s5\<lparr>displayNeedsUpdate := True,
                                   lastUserInteractionTime := t,
                                   currentSystemState := USER_INTERACTION\<rparr>
                       in emit (Sound BillTone) s6
                     else logMessage (LogBillZeroValue pulsesToProcess) s2
                else logMessage (LogBillRejected pulsesToProcess) s2
           else s)
        in s9\<lparr>billInhibit := (billAcceptorPulseCount s9 > 0)\<rparr>)"

subsection \<open>Input resolver\<close>

text \<open>
  The matrix scan of \<open>manualGetKeyState\<close>: rows are driven one after the other, the
  columns of the driven row are read in order, and the first column that reads HIGH in
  the first row that has one gives the key. \<open>pins r c\<close> is the level of column \<open>c\<close>
  while row \<open>r\<close> is driven.
\<close>

definition scanRow :: "(nat \<Rightarrow> nat \<Rightarrow> bool) \<Rightarrow> nat \<Rightarrow> char" where
  "scanRow pins r =
     (case List.find (\<lambda>c. pins r c) [0..<KEYPAD_COLS] of
        None \<Rightarrow> NOKEY
      | Some c \<Rightarrow> keys ! r ! c)"

definition scanKeypad :: "(nat \<Rightarrow> nat \<Rightarrow> bool) \<Rightarrow> char" where
  "scanKeypad pins =
     (case List.find (\<lambda>r. scanRow pins r \<noteq> NOKEY) [0..<KEYPAD_ROWS] of
        None \<Rightarrow> NOKEY
      | Some r \<Rightarrow> scanRow pins r)"

definition manualGetKeyState :: "(nat \<Rightarrow> nat \<Rightarrow> bool) \<Rightarrow> millis \<Rightarrow> machine \<Rightarrow> char \<times> machine" where
  "manualGetKeyState pins t s =
     (let currentPhysicalKey = scanKeypad pins
      in if currentPhysicalKey \<noteq> lastPhysicallyPressedKey s
         then
           let s1 = s\<lparr>lastKeyPressTime := t, lastPhysicallyPressedKey := currentPhysicalKey\<rparr>;
               s2 = (if currentPhysicalKey = NOKEY then s1\<lparr>lastReturnedKey := NOKEY\<rparr> else s1)
           in (NOKEY, s2)
         else if currentPhysicalKey \<noteq> NOKEY \<and> t - lastKeyPressTime s > KEYPAD_DEBOUNCE_PERIOD
                 \<and> currentPhysicalKey \<noteq> lastReturnedKey s
         then (currentPhysicalKey, s\<lparr>lastReturnedKey := currentPhysicalKey\<rparr>)
         else (NOKEY, s))"

definition isdigit :: "char \<Rightarrow> bool" where
  "isdigit c \<longleftrightarrow> c \<in> set ''0123456789''"

definition isspace :: "char \<Rightarrow> bool" where
  "isspace c \<longleftrightarrow> c \<in> set [CHR '' '', CHR 0x09, CHR 0x0A, CHR 0x0B, CHR 0x0C, CHR 0x0D]"

text \<open>
  \<open>String::toInt\<close> is \<open>atol\<close> on the characters: white space is skipped, a sign is
  read, and the decimal digits that follow give the value (0 when there is none).
\<close>

fun atolDigits :: "int \<Rightarrow> string \<Rightarrow> int" where
  "atolDigits acc [] = acc"
| "atolDigits acc (c # cs) =
     (if isdigit c then atolDigits (10 * acc + (of_char c - 48)) cs else acc)"

definition toInt :: "string \<Rightarrow> int" where
  "toInt b =
     (case dropWhile isspace b of
        [] \<Rightarrow> 0
      | c # cs \<Rightarrow>
          if c = CHR ''-'' then - atolDigits 0 cs
          else if c = CHR ''+'' then atolDigits 0 cs
          else atolDigits 0 (c # cs))"

definition processKeypadSelection :: "env \<Rightarrow> machine \<Rightarrow> machine" where
  "processKeypadSelection e s =
     (if keypadInputBuffer s = [] then s
      else
        let slotNum = toInt (keypadInputBuffer s);
            s1 = logMessage (LogSelection (keypadInputBuffer s) slotNum) s;
            s9 =
              (if slotNum \<ge> 1 \<and> slotNum \<le> activeSlots s1
               then
                 let s2 = s1\<lparr>selectedSlot := slotNum - 1\<rparr>;
                     s3 = logMessage (LogSlotSelected (selectedSlot s2 + 1)) s2;
                     s4 = s3\<lparr>slotSelectedTime := now e,
                             currentSystemState := USER_INTERACTION\<rparr>;
                     isFinal0 = (length (keypadInputBuffer s4) = 2 \<or> activeSlots s4 < 10);
                     isFinal =
                       (if length (keypadInputBuffer s4) = 1 \<and> activeSlots s4 \<ge> 10
                        then (if toInt (keypadInputBuffer s4) > activeSlots s4 div 10
                              then True else isFinal0)
                        else isFinal0)
                 in if isFinal
                    then (logMessage (LogSelectionFinal (keypadInputBuffer s4)) s4)
                           \<lparr>keypadInputBuffer := []\<rparr>
                    else logMessage LogWaitSecondDigit s4
               else if length (keypadInputBuffer s1) = 2
               then (displayErrorMessage e (ErrSlotInvalid (keypadInputBuffer s1)) s1)
                      \<lparr>selectedSlot := -1, keypadInputBuffer := []\<rparr>
               else s1)
        in s9\<lparr>displayNeedsUpdate := True\<rparr>)"

definition processKeypad :: "(nat \<Rightarrow> nat \<Rightarrow> bool) \<Rightarrow> env \<Rightarrow> machine \<Rightarrow> machine" where
  "processKeypad pins e s =
     (let (key, s0) = manualGetKeyState pins (now e) s
      in if key = NOKEY then s0
         else
           let s1 = emit (Sound KeyBeep) s0;
               s2 = logMessage (LogKey key) s1;
               s3 = s2\<lparr>lastUserInteractionTime := now e,
                       currentSystemState := USER_INTERACTION\<rparr>;
               s9 =
                 (if isdigit key
                  then
                    let s4 = s3\<lparr>lastKeypadInputTime := now e\<rparr>;
                        s5 = (if length (keypadInputBuffer s4) \<ge> 2
                              then s4\<lparr>keypadInputBuffer := []\<rparr> else s4);
                        s6 = s5\<lparr>keypadInputBuffer := keypadInputBuffer s5 @ [key]\<rparr>;
                        s7 = logMessage (LogBuffer (keypadInputBuffer s6)) s6
                    in processKeypadSelection e s7
                  else if key = CHR ''#''
                  then
                    let s4 = (if length (keypadInputBuffer s3) > 0
                              then processKeypadSelection e
                                     (logMessage (LogFinalizing (keypadInputBuffer s3)) s3)
                              else s3);
                        sel = selectedSlot s4;
                        s5 =
                          (if sel \<noteq> -1
                           then
                             if slotLocked s4 ! nat sel
                             then displayErrorMessage e (ErrSlotLocked (sel + 1)) s4
                             else if \<not> slotAvailable s4 ! nat sel
                             then displayErrorMessage e (ErrSlotEmpty (sel + 1)) s4
                             else if credit s4 \<ge> slotPrices s4 ! nat sel
                             then scheduleDispense e sel
                                    (logMessage (LogPurchaseAttempt (sel + 1) (credit s4)
                                                   (slotPrices s4 ! nat sel)) s4)
                             else displayErrorMessage e ErrCreditTooLow s4
                           else displayErrorMessage e ErrNoSlotChosen s4)
                    in s5\<lparr>keypadInputBuffer := []\<rparr>
                  else if key = CHR ''*''
                  then resetDisplayToDefault (now e) (logMessage LogStarReset s3)
                  else s3)
           in s9\<lparr>displayNeedsUpdate := True\<rparr>)"

text \<open>
  The keypad part of the main loop: one call of \<open>processKeypad\<close> per tick, with the
  column levels and the environment of that tick.
\<close>

fun keypadTicks :: "((nat \<Rightarrow> nat \<Rightarrow> bool) \<times> env) list \<Rightarrow> machine \<Rightarrow> machine" where
  "keypadTicks [] s = s"
| "keypadTicks ((pins, e) # ts) s = keypadTicks ts (processKeypad pins e s)"

text \<open>Column levels with exactly the key in row \<open>r\<close>, column \<open>c\<close> held down, and with no key down.\<close>

definition keyDown :: "nat \<Rightarrow> nat \<Rightarrow> (nat \<Rightarrow> nat \<Rightarrow> bool)" where
  "keyDown r c = (\<lambda>r' c'. r' = r \<and> c' = c)"

definition noKeyDown :: "nat \<Rightarrow> nat \<Rightarrow> bool" where
  "noKeyDown = (\<lambda>r c. False)"

subsection \<open>Administrative credit handlers\<close>

text \<open>
  \<open>amount\<close> is \<open>None\<close> when the request has no argument \<open>amount\<close>, and otherwise
  the value \<open>toFloat\<close> reads from it.
\<close>

definition handleAddCreditWeb :: "millis \<Rightarrow> real option \<Rightarrow> machine \<Rightarrow> machine" where
  "handleAddCreditWeb t amount s =
     (let s1 = s\<lparr>lastActivityTimeWeb := t\<rparr>
      in if \<not> isAuthenticated s1 then emit (Http (Reply 401)) s1
         else case amount of
           None \<Rightarrow> emit (Http (Reply 400)) s1
         | Some a \<Rightarrow>
             if a \<noteq> 0
             then
               let s2 = s1\<lparr>credit := credit s1 + a\<rparr>;
                   s3 = emit (Persist (StoredCredit (credit s2))) s2;
                   s4 = logMessage (LogWebCreditAdjusted a (credit s3)) s3;
                   s5 = emit (Http (Reply 200)) s4
               in s5\<lparr>displayNeedsUpdate := True\<rparr>
             else emit (Http (Reply 400)) s1)"

definition handleResetCreditWeb :: "millis \<Rightarrow> machine \<Rightarrow> machine" where
  "handleResetCreditWeb t s =
     (let s1 = s\<lparr>lastActivityTimeWeb := t\<rparr>
      in if \<not> isAuthenticated s1 then emit (Http (Reply 401)) s1
         else
           let s2 = s1\<lparr>credit := 0\<rparr>;
               s3 = emit (Persist (StoredCredit (credit s2))) s2;
               s4 = logMessage LogWebCreditReset s3;
               s5 = emit (Http (Reply 200)) s4
           in s5\<lparr>displayNeedsUpdate := True\<rparr>)"

subsection \<open>The globals after boot, example machines and runs of the main loop\<close>

text \<open>
  The initialisers of the globals, with the values \<open>setup()\<close> gives them on a device
  whose Preferences store is empty: price \<open>5.0 + 0.1 * i\<close> for slot \<open>i\<close>, every slot
  available and unlocked, the relay mask cleared and the bill acceptor enabled.
\<close>

definition initialMachine :: machine where
  "initialMachine =
     \<lparr>COIN_PROCESSING_DELAY = 150,
      BILL_GROUP_PROCESSING_TIMEOUT_MS = 1500,
      DISPENSE_RELAY_ON_TIME = 5000,
      currentSystemState = IDLE,
      slotSelectedTime = 0,
      lastRelayChangeTime = 0,
      lastUserInteractionTime = 0,
      expanderOutputStates = 0,
      lastPhysicallyPressedKey = NOKEY,
      lastReturnedKey = NOKEY,
      lastKeyPressTime = 0,
      slotPrices = map (\<lambda>i. 5 + real i / 10) [0..<16],
      slotAvailable = replicate 16 True,
      slotLocked = replicate 16 False,
      activeSlots = 16,
      almostEmptyThreshold = 5,
      almostEmptyNotificationSent = False,
      emptyNotificationSent = False,
      telegramEnabled = False,
      telegramNotifyOnSale = False,
      telegramNotifyAlmostEmpty = True,
      telegramNotifyEmpty = True,
      telegramBotToken = [],
      telegramChatId = [],
      credit = 0,
      coinPulseCount = 0,
      lastCoinPulseTime = 0,
      billAcceptorPulseCount = 0,
      lastBillPulseEdgeTime = 0,
      keypadInputBuffer = [],
      lastKeypadInputTime = 0,
      selectedSlot = -1,
      isAuthenticated = False,
      lastActivityTimeWeb = 0,
      displayNeedsUpdate = True,
      dispenseJob = \<lparr>active = False, slot = -1, startTime = 0, relayActivated = False\<rparr>,
      billInhibit = False,
      out = []\<rparr>"

text \<open>
  An environment in which the bus acknowledges every transfer, the machine is online,
  Telegram accepts every message and no administration request arrives during an error
  dwell; the dwell ends three seconds after \<open>t\<close>.
\<close>

definition calmEnv :: "millis \<Rightarrow> env" where
  "calmEnv t =
     \<lparr>now = t, dwellEnd = t + 3000, web = (\<lambda>s. s), wire1 = 0, wire2 = 0,
      offlineMode = False, wifiConnected = True, botSendOk = True\<rparr>"

text \<open>A machine in the middle of a dispense: the relay of slot index 2 is on.\<close>

definition busyMachine :: machine where
  "busyMachine = initialMachine\<lparr>dispenseJob :=
      \<lparr>active = True, slot = 2, startTime = 1000, relayActivated = True\<rparr>\<rparr>"


text \<open>Eight euros of credit on a freshly booted machine.\<close>

definition paidMachine :: machine where
  "paidMachine = initialMachine\<lparr>credit := 8\<rparr>"

text \<open>The same with a job for slot index 3 scheduled and its relay not yet switched.\<close>

definition pendingMachine :: machine where
  "pendingMachine = paidMachine\<lparr>dispenseJob :=
      \<lparr>active = True, slot = 3, startTime = 1000, relayActivated = False\<rparr>\<rparr>"

text \<open>An environment whose bus answers every transfer with error 2 (address not acknowledged).\<close>

definition deadBusEnv :: "millis \<Rightarrow> env" where
  "deadBusEnv t = (calmEnv t)\<lparr>wire1 := 2, wire2 := 2\<rparr>"

text \<open>
  Eight euros of credit and a bill on its way in: two bill pulses have been counted, the
  last of them 100 ms before the loop calls \<open>processBillAcceptorPulses\<close>, which leaves
  the group open and the acceptor inhibited.
\<close>

definition billsPending :: machine where
  "billsPending = processBillAcceptorPulses 5000
     (paidMachine\<lparr>billAcceptorPulseCount := 2, lastBillPulseEdgeTime := 4900\<rparr>)"

text \<open>Machines on which a key has been sensed for one tick, 100 ms before the next tick.\<close>

definition oneSensed :: machine where
  "oneSensed = keypadTicks [(keyDown 0 0, calmEnv 1000)] initialMachine"

definition sixSensed :: machine where
  "sixSensed = keypadTicks [(keyDown 0 0, calmEnv 1100), (noKeyDown, calmEnv 1200),
                            (keyDown 1 2, calmEnv 1300)] oneSensed"

text \<open>The ticks of pressing 9, releasing it and pressing 9 again.\<close>

definition nineTwice :: "((nat \<Rightarrow> nat \<Rightarrow> bool) \<times> env) list" where
  "nineTwice = [(keyDown 2 2, calmEnv 1000), (keyDown 2 2, calmEnv 1100),
                (noKeyDown, calmEnv 1200),
                (keyDown 2 2, calmEnv 1300), (keyDown 2 2, calmEnv 1400)]"

definition nineSensed :: machine where
  "nineSensed = keypadTicks [(keyDown 2 2, calmEnv 1000)] initialMachine"

definition sevenSensed :: machine where
  "sevenSensed = keypadTicks [(keyDown 0 0, calmEnv 1100), (noKeyDown, calmEnv 1200),
                              (keyDown 2 0, calmEnv 1300)] oneSensed"

text \<open>A logged-in administrator and one euro of credit.\<close>

definition adminMachine :: machine where
  "adminMachine = initialMachine\<lparr>isAuthenticated := True, credit := 1\<rparr>"

text \<open>
  Purchases, refills and lock changes alter the slot arrays between two stock checks.
  \<open>stockChecks\<close> runs \<open>checkOverallStockLevel\<close> once for each element of a list, in
  the environment and on the availability and lock arrays that element gives.
\<close>

definition setSlots :: "bool list \<times> bool list \<Rightarrow> machine \<Rightarrow> machine" where
  "setSlots c s = s\<lparr>slotAvailable := fst c, slotLocked := snd c\<rparr>"

fun stockChecks :: "(env \<times> bool list \<times> bool list) list \<Rightarrow> machine \<Rightarrow> machine" where
  "stockChecks [] s = s"
| "stockChecks ((e, c) # cs) s = stockChecks cs (checkOverallStockLevel e (setSlots c s))"

text \<open>A message handed to \<open>sendTelegramMessage\<close> reaches \<open>bot.sendMessage\<close>.\<close>

definition canSend :: "env \<Rightarrow> machine \<Rightarrow> bool" where
  "canSend e s \<longleftrightarrow>
     telegramEnabled s \<and> \<not> offlineMode e \<and> wifiConnected e
     \<and> telegramBotToken s \<noteq> [] \<and> telegramChatId s \<noteq> []"

fun isAlmostEmpty :: "effect \<Rightarrow> bool" where
  "isAlmostEmpty (Telegram (AlmostEmptyMessage n)) = True"
| "isAlmostEmpty x = False"

fun isErrorScreen :: "effect \<Rightarrow> bool" where
  "isErrorScreen (Draw (ScreenError m)) = True"
| "isErrorScreen x = False"

fun isTelegram :: "effect \<Rightarrow> bool" where
  "isTelegram (Telegram m) = True"
| "isTelegram x = False"

text \<open>
  A machine with Telegram set up, and the same with three, sixteen and no slots in stock;
  the stock after two more sales, and two ways of having nothing to sell.
\<close>

definition telegramMachine :: machine where
  "telegramMachine = initialMachine\<lparr>telegramEnabled := True,
      telegramBotToken := ''token'', telegramChatId := ''chat''\<rparr>"

definition lowStock :: machine where
  "lowStock = telegramMachine\<lparr>slotAvailable := replicate 3 True @ replicate 13 False\<rparr>"

definition fullStock :: machine where
  "fullStock = telegramMachine\<lparr>almostEmptyNotificationSent := True, emptyNotificationSent := True\<rparr>"

definition soldOut :: machine where
  "soldOut = telegramMachine\<lparr>slotAvailable := replicate 16 False\<rparr>"

text \<open>
  The environment of \<open>calmEnv\<close> with the WiFi link down; a sold-out machine whose
  threshold has been saved as -1, and three checks that find nothing in stock.
\<close>

definition wifiDownEnv :: "millis \<Rightarrow> env" where
  "wifiDownEnv t = (calmEnv t)\<lparr>wifiConnected := False\<rparr>"

definition negativeThreshold :: machine where
  "negativeThreshold = soldOut\<lparr>almostEmptyThreshold := - 1\<rparr>"

definition emptyThrice :: "(env \<times> bool list \<times> bool list) list" where
  "emptyThrice = [(calmEnv 1000, replicate 16 False, replicate 16 False),
                  (calmEnv 2000, replicate 16 False, replicate 16 False),
                  (calmEnv 3000, replicate 16 False, replicate 16 False)]"

definition laterSales :: "(env \<times> bool list \<times> bool list) list" where
  "laterSales = [(calmEnv 2000, replicate 2 True @ replicate 14 False, replicate 16 False),
                 (calmEnv 3000, replicate 1 True @ replicate 15 False, replicate 16 False)]"

definition stillSoldOut :: "(env \<times> bool list \<times> bool list) list" where
  "stillSoldOut = [(calmEnv 2000, replicate 16 False, replicate 16 False),
                   (calmEnv 3000, replicate 16 True, replicate 16 True)]"

text \<open>
  The keypad resolver over successive ticks: \<open>manualGetKeyState\<close> is called once for
  each element of the list, with the column levels and the \<open>millis()\<close> reading of that
  call; the result lists what each call returned.
\<close>

fun keyScans :: "((nat \<Rightarrow> nat \<Rightarrow> bool) \<times> millis) list \<Rightarrow> machine \<Rightarrow> char list \<times> machine" where
  "keyScans [] s = ([], s)"
| "keyScans ((pins, t) # ps) s =
     (let (k, s1) = manualGetKeyState pins t s;
          (ks, s2) = keyScans ps s1
      in (k # ks, s2))"

text \<open>The key each scan of a list senses, and the level of one column in each of them.\<close>

definition sensedKeys :: "((nat \<Rightarrow> nat \<Rightarrow> bool) \<times> millis) list \<Rightarrow> char list" where
  "sensedKeys ps = map (\<lambda>p. scanKeypad (fst p)) ps"

definition columnLevels :: "nat \<Rightarrow> nat \<Rightarrow> ((nat \<Rightarrow> nat \<Rightarrow> bool) \<times> millis) list \<Rightarrow> bool list" where
  "columnLevels r c ps = map (\<lambda>p. fst p r c) ps"

text \<open>
  Key 2 is pressed and held; while it is held, key 1 is pressed as well and released
  again. With both keys down the scan finds key 1 first.
\<close>

definition keys12Down :: "nat \<Rightarrow> nat \<Rightarrow> bool" where
  "keys12Down = (\<lambda>r c. r = 0 \<and> (c = 0 \<or> c = 1))"

definition rollover :: "((nat \<Rightarrow> nat \<Rightarrow> bool) \<times> millis) list" where
  "rollover = [(keyDown 0 1, 1000), (keyDown 0 1, 1100),
               (keys12Down, 1200), (keys12Down, 1300),
               (keyDown 0 1, 1400), (keyDown 0 1, 1500)]"

text \<open>Key 2 sensed for one scan; the same after the scan that reports it; a long hold.\<close>

definition twoSensed :: machine where
  "twoSensed = snd (keyScans [(keyDown 0 1, 1000)] initialMachine)"

definition twoReported :: machine where
  "twoReported = snd (manualGetKeyState (keyDown 0 1) 1100 twoSensed)"

definition longHold :: "((nat \<Rightarrow> nat \<Rightarrow> bool) \<times> millis) list" where
  "longHold = [(keyDown 0 1, 1110), (keyDown 0 1, 1200), (keyDown 0 1, 60000),
               (keyDown 0 1, 4000000000), (keyDown 0 1, 500)]"

text \<open>
  Coin pulses and loop ticks, each with the time in milliseconds since boot at which it
  happens; \<open>millis()\<close> shows that time modulo \<open>2 ^ 32\<close>. A \<open>coin_event\<close> happens as
  a whole: a pulse between two calls of \<open>processAcceptedCoin\<close>, or a call that no pulse
  interrupts.
\<close>

datatype coin_event = CoinPulse nat | LoopTick nat

fun eventTime :: "coin_event \<Rightarrow> nat" where
  "eventTime (CoinPulse t) = t"
| "eventTime (LoopTick t) = t"

definition millisAt :: "nat \<Rightarrow> millis" where
  "millisAt t = word_of_nat t"

text \<open>
  The body of \<open>processAcceptedCoin\<close> under its guard: the counter is read and zeroed with
  interrupts masked, and the pulses are turned into credit or discarded.
\<close>

definition coinDrain :: "millis \<Rightarrow> machine \<Rightarrow> machine" where
  "coinDrain t s =
     (let pulsesToProcess = coinPulseCount s;
          s1 = s\<lparr>coinPulseCount := 0\<rparr>;
          s2 = logMessage (LogCoinProcessing pulsesToProcess) s1
      in if pulsesToProcess > 0 \<and> pulsesToProcess < int (length pulseValues)
         then
           let coinValueCents = pulseValues ! nat pulsesToProcess
           in if coinValueCents > 0
              then
                let s3 = s2\<lparr>credit := credit s2 + real_of_int coinValueCents / 100\<rparr>;
                    s4 = logMessage (LogCoinAccepted pulsesToProcess coinValueCents (credit s3)) s3;
                    s5 = emit (Persist (StoredCredit (credit s4))) s4;
                    s6 = s5\<lparr>displayNeedsUpdate := True,
                            lastUserInteractionTime := t,
                            currentSystemState := USER_INTERACTION\<rparr>
                in emit (Sound CoinTone) s6
              else logMessage (LogCoinZeroValue pulsesToProcess) s2
         else logMessage (LogCoinRejected pulsesToProcess) s2)"

text \<open>The interrupt routine run for each pulse of a list, in order.\<close>

fun coinPulses :: "nat list \<Rightarrow> machine \<Rightarrow> machine" where
  "coinPulses [] s = s"
| "coinPulses (p # ps) s = coinPulses ps (coinAcceptorISR (millisAt p) s)"

text \<open>
  The guard of \<open>processAcceptedCoin\<close>,
  \<open>coinPulseCount > 0 && (millis() - lastCoinPulseTime > COIN_PROCESSING_DELAY)\<close>, is
  evaluated with interrupts enabled; \<open>noInterrupts()\<close> comes after it. The call reads
  \<open>coinPulseCount\<close>, and if that is positive it reads \<open>millis()\<close> and
  \<open>lastCoinPulseTime\<close>, in an order C++ leaves open, before it compares and drains.
  \<open>processAcceptedCoinRaced ord t g0 g1 g2\<close> is a call in which the pulses \<open>g0\<close> land
  after the counter has been read, the pulses \<open>g1\<close> between the two readings of the
  difference and the pulses \<open>g2\<close> after them, before interrupts are masked; \<open>t\<close> is
  the time of the \<open>millis()\<close> reading. When the counter reads zero the call returns at
  once and the pulses land after it.
\<close>

datatype read_order = MillisFirst | LastPulseFirst

definition processAcceptedCoinRaced ::
    "read_order \<Rightarrow> nat \<Rightarrow> nat list \<Rightarrow> nat list \<Rightarrow> nat list \<Rightarrow> machine \<Rightarrow> machine" where
  "processAcceptedCoinRaced ord t g0 g1 g2 s =
     (if \<not> coinPulseCount s > 0 then coinPulses (g0 @ g1 @ g2) s
      else
        let s1 = coinPulses g0 s;
            s2 = coinPulses g1 s1;
            lastRead = (case ord of
                          MillisFirst \<Rightarrow> lastCoinPulseTime s2
                        | LastPulseFirst \<Rightarrow> lastCoinPulseTime s1);
            s3 = coinPulses g2 s2
        in if millisAt t - lastRead > COIN_PROCESSING_DELAY s3
           then coinDrain (millisAt t) s3
           else s3)"

text \<open>
  A step of a run is an event that happens as a whole, or a call of
  \<open>processAcceptedCoin\<close> with pulses landing inside its guard.
\<close>

datatype coin_step =
    Whole coin_event
  | RacedTick read_order nat "nat list" "nat list" "nat list"

fun coinRun :: "coin_step list \<Rightarrow> machine \<Rightarrow> machine" where
  "coinRun [] s = s"
| "coinRun (Whole (CoinPulse t) # es) s = coinRun es (coinAcceptorISR (millisAt t) s)"
| "coinRun (Whole (LoopTick t) # es) s = coinRun es (processAcceptedCoin (millisAt t) s)"
| "coinRun (RacedTick ord t g0 g1 g2 # es) s =
     coinRun es (processAcceptedCoinRaced ord t g0 g1 g2 s)"

text \<open>A run of whole events.\<close>

definition wholeRun :: "coin_event list \<Rightarrow> machine \<Rightarrow> machine" where
  "wholeRun es s = coinRun (map Whole es) s"

text \<open>The pulses of a run, in the order in which they land.\<close>

fun stepPulses :: "coin_step list \<Rightarrow> nat list" where
  "stepPulses [] = []"
| "stepPulses (Whole (CoinPulse t) # es) = t # stepPulses es"
| "stepPulses (Whole (LoopTick t) # es) = stepPulses es"
| "stepPulses (RacedTick ord t g0 g1 g2 # es) = g0 @ g1 @ g2 @ stepPulses es"

fun pulseTimes :: "coin_event list \<Rightarrow> nat list" where
  "pulseTimes [] = []"
| "pulseTimes (CoinPulse t # es) = t # pulseTimes es"
| "pulseTimes (LoopTick t # es) = pulseTimes es"

fun tickTimes :: "coin_event list \<Rightarrow> nat list" where
  "tickTimes [] = []"
| "tickTimes (CoinPulse t # es) = tickTimes es"
| "tickTimes (LoopTick t # es) = t # tickTimes es"

text \<open>Each time of the list is at most \<open>d\<close> after the one before it.\<close>

fun gapsWithin :: "nat \<Rightarrow> nat list \<Rightarrow> bool" where
  "gapsWithin d (a # b # ps) = (b - a \<le> d \<and> gapsWithin d (b # ps))"
| "gapsWithin d ps = True"

text \<open>
  A coin of three pulses 40 ms apart, with the loop ticking before, between and after
  them; and a single stray pulse.
\<close>

definition threePulses :: "coin_event list" where
  "threePulses = [LoopTick 900, CoinPulse 1000, LoopTick 1005, CoinPulse 1040, CoinPulse 1080,
                  LoopTick 1100, LoopTick 1200, LoopTick 1250, LoopTick 1260]"

definition strayPulse :: "coin_event list" where
  "strayPulse = [CoinPulse 5000, LoopTick 5100, LoopTick 5200]"

text \<open>
  A coin of three pulses, at 1000, 1040 and 1080 ms. A call of \<open>processAcceptedCoin\<close>
  reads \<open>millis()\<close> at 1039 ms, the second pulse lands, and the call then reads
  \<open>lastCoinPulseTime\<close>. The loop ticks again 170 ms after the third pulse.
\<close>

definition racedBurst :: "coin_step list" where
  "racedBurst = [Whole (CoinPulse 1000), RacedTick MillisFirst 1039 [] [1040] [],
                 Whole (CoinPulse 1080), Whole (LoopTick 1250)]"

text \<open>
  A coin of three pulses, at 1000, 1150 and 1190 ms. A call reads \<open>lastCoinPulseTime\<close>,
  the second pulse lands, and the call reads \<open>millis()\<close> at 1151 ms.
\<close>

definition staleBurst :: "coin_step list" where
  "staleBurst = [Whole (CoinPulse 1000), RacedTick LastPulseFirst 1151 [] [1150] [],
                 Whole (CoinPulse 1190), Whole (LoopTick 1400)]"

section \<open>Properties\<close>

subsection \<open>Mutual exclusion of dispense jobs\<close>

lemma emit_fields [simp]:
  "credit (emit x s) = credit s"
  "dispenseJob (emit x s) = dispenseJob s"
  "slotPrices (emit x s) = slotPrices s"
  "slotAvailable (emit x s) = slotAvailable s"
  "slotLocked (emit x s) = slotLocked s"
  "billInhibit (emit x s) = billInhibit s"
  "expanderOutputStates (emit x s) = expanderOutputStates s"
  "out (emit x s) = out s @ [x]"
  by (simp_all add: emit_def)

text \<open>
  C1. While a dispense job is active, \<open>scheduleDispense\<close> for any slot creates no second
  job and queues nothing: the call only writes two log lines. Credit, the four fields of
  the active job and the price, availability and lock of every slot are as before (and so
  is every other global).
\<close>

theorem scheduleDispense_mutual_exclusion:
  assumes "active (dispenseJob s)"
  shows "scheduleDispense e slotToDispense s =
           s\<lparr>out := out s @ [Log (LogScheduleCalled (slotToDispense + 1)), Log LogJobAlreadyActive]\<rparr>
         \<and> credit (scheduleDispense e slotToDispense s) = credit s
         \<and> dispenseJob (scheduleDispense e slotToDispense s) = dispenseJob s
         \<and> slotPrices (scheduleDispense e slotToDispense s) = slotPrices s
         \<and> slotAvailable (scheduleDispense e slotToDispense s) = slotAvailable s
         \<and> slotLocked (scheduleDispense e slotToDispense s) = slotLocked s"
  using assms by (simp add: scheduleDispense_def logMessage_def emit_def)

theorem scheduleDispense_mutual_exclusion_witness:
  "active (dispenseJob busyMachine)
   \<and> credit (scheduleDispense (calmEnv 2000) 4 busyMachine) = credit busyMachine
   \<and> dispenseJob (scheduleDispense (calmEnv 2000) 4 busyMachine) = dispenseJob busyMachine
   \<and> slotAvailable (scheduleDispense (calmEnv 2000) 4 busyMachine) = slotAvailable busyMachine"
  using scheduleDispense_mutual_exclusion [of busyMachine "calmEnv 2000" 4]
  by (simp add: busyMachine_def)

subsection \<open>The relay mirror\<close>

lemma relay_bit_set:
  "n < 16 \<Longrightarrow> bit ((w :: 16 word) OR push_bit n 1) n"
  by (simp add: bit_simps)

lemma relay_bit_clear:
  "n < 16 \<Longrightarrow> \<not> bit ((w :: 16 word) AND NOT (push_bit n 1)) n"
  by (simp add: bit_simps)

lemma relay_bit_other_set:
  "m \<noteq> n \<Longrightarrow> bit ((w :: 16 word) OR push_bit n 1) m = bit w m"
  by (auto simp add: bit_simps)

lemma relay_bit_other_clear:
  "m \<noteq> n \<Longrightarrow> bit ((w :: 16 word) AND NOT (push_bit n 1)) m = bit w m"
  by (auto simp add: bit_simps dest: bit_imp_le_length)

lemma low_byte_bit:
  "n < 8 \<Longrightarrow> bit (ucast ((w :: 16 word) AND 0xFF) :: 8 word) n = bit w n"
proof -
  assume n: "n < 8"
  have e: "(0xFF :: 16 word) = mask 8" by (simp add: mask_eq_exp_minus_1)
  show ?thesis unfolding e using n by (simp add: bit_simps)
qed

lemma high_byte_bit:
  "n < 8 \<Longrightarrow> bit (ucast (drop_bit 8 (w :: 16 word)) :: 8 word) n = bit w (8 + n)"
  by (simp add: bit_simps)

lemma data_byte_bit:
  assumes "n < 16"
  shows "bit (if n < 8 then ucast ((w :: 16 word) AND 0xFF) else ucast (drop_bit 8 w) :: 8 word)
           (n mod 8) = bit w n"
proof (cases "n < 8")
  case True
  then show ?thesis by (simp add: low_byte_bit)
next
  case False
  with assms have "n mod 8 < 8" "8 + n mod 8 = n" by presburger+
  with False show ?thesis by (simp add: high_byte_bit)
qed

lemma data_byte_bit_int:
  assumes "0 \<le> j" and "j < MAX_SLOTS"
  shows "bit (if j < 8 then ucast ((w :: 16 word) AND 0xFF) else ucast (drop_bit 8 w) :: 8 word)
           (nat j mod 8) = bit w (nat j)"
proof -
  from assms have n: "nat j < 16" by (simp add: MAX_SLOTS_def)
  have lt8: "j < 8 \<longleftrightarrow> nat j < 8" using assms by auto
  show ?thesis unfolding lt8 by (rule data_byte_bit [OF n])
qed

lemma controlSlotRelay_ok:
  "fst (controlSlotRelay error t j a s) \<longleftrightarrow> 0 \<le> j \<and> j < MAX_SLOTS \<and> error = 0"
  by (auto simp add: controlSlotRelay_def Let_def)

lemma controlSlotRelay_frame [simp]:
  "credit (snd (controlSlotRelay error t j a s)) = credit s"
  "dispenseJob (snd (controlSlotRelay error t j a s)) = dispenseJob s"
  "slotPrices (snd (controlSlotRelay error t j a s)) = slotPrices s"
  "slotAvailable (snd (controlSlotRelay error t j a s)) = slotAvailable s"
  "slotLocked (snd (controlSlotRelay error t j a s)) = slotLocked s"
  "billInhibit (snd (controlSlotRelay error t j a s)) = billInhibit s"
  "DISPENSE_RELAY_ON_TIME (snd (controlSlotRelay error t j a s)) = DISPENSE_RELAY_ON_TIME s"
  by (simp_all add: controlSlotRelay_def Let_def logMessage_def emit_def)

lemma controlSlotRelay_mask:
  assumes "0 \<le> j" and "j < MAX_SLOTS"
  shows "expanderOutputStates (snd (controlSlotRelay error t j a s)) =
           (if a then expanderOutputStates s OR push_bit (nat j) 1
            else expanderOutputStates s AND NOT (push_bit (nat j) 1))"
  using assms by (simp add: controlSlotRelay_def Let_def logMessage_def emit_def del: push_bit_of_1)

lemma controlSlotRelay_out:
  assumes "0 \<le> j" and "j < MAX_SLOTS"
  shows "out (snd (controlSlotRelay error t j a s)) = out s @
           [BusWrite (if j < 8 then 0x02 else 0x03)
              (if j < 8 then ucast (expanderOutputStates (snd (controlSlotRelay error t j a s)) AND 0xFF)
               else ucast (drop_bit 8 (expanderOutputStates (snd (controlSlotRelay error t j a s))))),
            Log (if error = 0 then LogRelaySent (j + 1) a else LogRelayFailed (j + 1) error)]"
  using assms by (simp add: controlSlotRelay_def Let_def logMessage_def emit_def del: push_bit_of_1)

lemma controlSlotRelay_bit:
  assumes "0 \<le> j" and "j < MAX_SLOTS"
  shows "bit (expanderOutputStates (snd (controlSlotRelay error t j a s))) (nat j) = a"
proof -
  from assms have n: "nat j < 16" by (simp add: MAX_SLOTS_def)
  show ?thesis
    unfolding controlSlotRelay_mask [OF assms]
    using n by (simp add: relay_bit_set relay_bit_clear del: push_bit_of_1)
qed

lemma controlSlotRelay_other_bits:
  assumes "0 \<le> j" and "j < MAX_SLOTS" and "m \<noteq> nat j"
  shows "bit (expanderOutputStates (snd (controlSlotRelay error t j a s))) m
         = bit (expanderOutputStates s) m"
  unfolding controlSlotRelay_mask [OF assms(1,2)]
  using assms(3) by (simp add: relay_bit_other_set relay_bit_other_clear del: push_bit_of_1)

text \<open>
  C10. For a slot index in range, \<open>controlSlotRelay\<close> first writes the requested value
  into the slot's bit of the relay mask \<open>expanderOutputStates[0]\<close> (no other bit
  changes), and the data byte it then puts on the bus is cut from the mask so updated:
  the slot's bit of that byte (bit \<open>slot mod 8\<close> of its bank) is the requested value.
  The return value is true exactly when the transfer is acknowledged; when it is not,
  the function returns false and the mask keeps the requested bit: nothing is rolled
  back.
\<close>

theorem controlSlotRelay_mirror_kept_on_failure:
  assumes "0 \<le> slt" and "slt < MAX_SLOTS"
  shows "let (ok, s') = controlSlotRelay error t slt activate s;
             relayCommand = (if slt < 8 then 0x02 else 0x03);
             dataByte = (if slt < 8 then ucast (expanderOutputStates s' AND 0xFF)
                         else ucast (drop_bit 8 (expanderOutputStates s')))
         in (ok \<longleftrightarrow> error = 0)
          \<and> bit (expanderOutputStates s') (nat slt) = activate
          \<and> (\<forall>m. m \<noteq> nat slt \<longrightarrow> bit (expanderOutputStates s') m = bit (expanderOutputStates s) m)
          \<and> bit dataByte (nat slt mod 8) = activate
          \<and> out s' = out s @
               [BusWrite relayCommand dataByte,
                Log (if error = 0 then LogRelaySent (slt + 1) activate
                     else LogRelayFailed (slt + 1) error)]
          \<and> (error \<noteq> 0 \<longrightarrow> \<not> ok \<and> bit (expanderOutputStates s') (nat slt) = activate)"
  unfolding Let_def split_beta data_byte_bit_int [OF assms]
  using assms controlSlotRelay_out [OF assms, of error t activate s]
  by (simp add: controlSlotRelay_ok controlSlotRelay_bit controlSlotRelay_other_bits)

theorem controlSlotRelay_mirror_kept_on_failure_witness:
  "(0::int) \<le> 10 \<and> (10::int) < MAX_SLOTS
   \<and> \<not> fst (controlSlotRelay 2 700 10 True initialMachine)
   \<and> bit (expanderOutputStates (snd (controlSlotRelay 2 700 10 True initialMachine))) 10
   \<and> expanderOutputStates (snd (controlSlotRelay 2 700 10 True initialMachine)) = 0x0400"
  using controlSlotRelay_mirror_kept_on_failure [of 10 2 700 True initialMachine]
  by (simp add: MAX_SLOTS_def controlSlotRelay_def initialMachine_def Let_def logMessage_def emit_def)

subsection \<open>The open-time deadline\<close>

lemma checkOverallStockLevel_frame [simp]:
  "credit (checkOverallStockLevel e s) = credit s"
  "dispenseJob (checkOverallStockLevel e s) = dispenseJob s"
  "slotPrices (checkOverallStockLevel e s) = slotPrices s"
  "slotAvailable (checkOverallStockLevel e s) = slotAvailable s"
  "slotLocked (checkOverallStockLevel e s) = slotLocked s"
  "billInhibit (checkOverallStockLevel e s) = billInhibit s"
  "DISPENSE_RELAY_ON_TIME (checkOverallStockLevel e s) = DISPENSE_RELAY_ON_TIME s"
  by (simp_all add: checkOverallStockLevel_def Let_def logMessage_def emit_def sendTelegramMessage_def)

lemma dispenseStep2_frame [simp]:
  "credit (dispenseStep2 error t s) = credit s"
  "slotPrices (dispenseStep2 error t s) = slotPrices s"
  "slotAvailable (dispenseStep2 error t s) = slotAvailable s"
  "slotLocked (dispenseStep2 error t s) = slotLocked s"
  by (simp_all add: dispenseStep2_def Let_def split_beta logMessage_def resetDisplayToDefault_def)

lemma dispenseStep2_job:
  "relayActivated (dispenseJob s) \<Longrightarrow> relayActivated (dispenseJob (dispenseStep2 error t s))"
  by (simp add: dispenseStep2_def Let_def split_beta logMessage_def resetDisplayToDefault_def)

lemma processDispenseJob_inactive:
  "\<not> active (dispenseJob s) \<Longrightarrow> processDispenseJob e s = s"
  by (simp add: processDispenseJob_def)

lemma processDispenseJob_open:
  assumes "relayActivated (dispenseJob s)"
  shows "credit (processDispenseJob e s) = credit s"
    and "slotAvailable (processDispenseJob e s) = slotAvailable s"
    and "slotPrices (processDispenseJob e s) = slotPrices s"
    and "slotLocked (processDispenseJob e s) = slotLocked s"
    and "relayActivated (dispenseJob (processDispenseJob e s))"
  using assms by (simp_all add: processDispenseJob_def Let_def dispenseStep2_job)



subsection \<open>One debit for one purchase, none for an aborted one\<close>

lemma displayErrorMessage_frame:
  assumes "dwellFrame (web e)"
  shows "credit (displayErrorMessage e m s) = credit s"
    and "slotAvailable (displayErrorMessage e m s) = slotAvailable s"
    and "dispenseJob (displayErrorMessage e m s) = dispenseJob s"
    and "billInhibit (displayErrorMessage e m s) = billInhibit s"
    and "Draw (ScreenError m) \<in> set (out (displayErrorMessage e m s))"
    and "set (out s) \<subseteq> set (out (displayErrorMessage e m s))"
proof -
  let ?s5 = "(emit (Sound ErrorSound) (emit (Draw (ScreenError m))
               ((logMessage (LogDisplayError m) s)\<lparr>currentSystemState := ERROR_DISPLAY\<rparr>)))
             \<lparr>displayNeedsUpdate := False\<rparr>"
  have d: "displayErrorMessage e m s = resetDisplayToDefault (dwellEnd e) (web e ?s5)"
    by (simp add: displayErrorMessage_def Let_def)
  from assms have w: "credit (web e ?s5) = credit ?s5" "slotAvailable (web e ?s5) = slotAvailable ?s5"
    "dispenseJob (web e ?s5) = dispenseJob ?s5" "billInhibit (web e ?s5) = billInhibit ?s5"
    "set (out ?s5) \<subseteq> set (out (web e ?s5))"
    unfolding dwellFrame_def by blast+
  show "credit (displayErrorMessage e m s) = credit s"
    "slotAvailable (displayErrorMessage e m s) = slotAvailable s"
    "dispenseJob (displayErrorMessage e m s) = dispenseJob s"
    "billInhibit (displayErrorMessage e m s) = billInhibit s"
    unfolding d using w(1-4) by (simp_all add: resetDisplayToDefault_def logMessage_def)
  have "Draw (ScreenError m) \<in> set (out ?s5)" "set (out s) \<subseteq> set (out ?s5)"
    by (auto simp add: logMessage_def)
  with w(5) show "Draw (ScreenError m) \<in> set (out (displayErrorMessage e m s))"
    "set (out s) \<subseteq> set (out (displayErrorMessage e m s))"
    unfolding d by (auto simp add: resetDisplayToDefault_def)
qed

lemma processDispenseJob_settled:
  assumes "\<not> active (dispenseJob s) \<or> relayActivated (dispenseJob s)"
  shows "credit (processDispenseJob e s) = credit s"
    and "slotAvailable (processDispenseJob e s) = slotAvailable s"
    and "\<not> active (dispenseJob (processDispenseJob e s)) \<or> relayActivated (dispenseJob (processDispenseJob e s))"
  using assms processDispenseJob_open [of s e] processDispenseJob_inactive [of s e] by auto

lemma dispenseTicks_settled:
  assumes "\<not> active (dispenseJob s) \<or> relayActivated (dispenseJob s)"
  shows "credit (dispenseTicks es s) = credit s \<and> slotAvailable (dispenseTicks es s) = slotAvailable s"
  using assms
proof (induction es arbitrary: s)
  case Nil
  then show ?case by simp
next
  case (Cons e es)
  from processDispenseJob_settled [OF Cons.prems, of e] Cons.IH [of "processDispenseJob e s"]
  show ?case by simp
qed

lemma scheduleDispense_accepted:
  assumes "\<not> active (dispenseJob s)" and "wire1 e = 0"
  shows "credit (scheduleDispense e sl s) = credit s"
    and "slotAvailable (scheduleDispense e sl s) = slotAvailable s"
    and "slotPrices (scheduleDispense e sl s) = slotPrices s"
    and "dispenseJob (scheduleDispense e sl s) =
           \<lparr>active = True, slot = sl, startTime = now e, relayActivated = False\<rparr>"
  using assms
  by (simp_all add: scheduleDispense_def checkRelayBoardOnline_def Let_def logMessage_def)

lemma scheduleDispense_offline:
  assumes "\<not> active (dispenseJob s)" and "wire1 e \<noteq> 0"
  shows "scheduleDispense e sl s =
     displayErrorMessage e ErrBoardOffline
       (logMessage (LogBoardUnreachable (wire1 e))
          (emit BusProbe (logMessage (LogScheduleCalled (sl + 1)) s)))"
  using assms
  by (simp add: scheduleDispense_def checkRelayBoardOnline_def Let_def logMessage_def)

lemma processDispenseJob_activated:
  assumes "active (dispenseJob s)" and "\<not> relayActivated (dispenseJob s)"
    and "0 \<le> slot (dispenseJob s)" and "slot (dispenseJob s) < MAX_SLOTS" and "wire1 e = 0"
  shows "credit (processDispenseJob e s) =
           (if credit s - slotPrices s ! nat (slot (dispenseJob s)) < 0 then 0
            else credit s - slotPrices s ! nat (slot (dispenseJob s)))"
    and "slotAvailable (processDispenseJob e s) = (slotAvailable s)[nat (slot (dispenseJob s)) := False]"
    and "relayActivated (dispenseJob (processDispenseJob e s))"
  using assms
  by (simp_all add: processDispenseJob_def Let_def split_beta controlSlotRelay_ok logMessage_def
      sendTelegramMessage_def dispenseStep2_job)

lemma processDispenseJob_aborted:
  assumes "active (dispenseJob s)" and "\<not> relayActivated (dispenseJob s)"
    and "slot (dispenseJob s) < 0 \<or> MAX_SLOTS \<le> slot (dispenseJob s) \<or> wire1 e \<noteq> 0"
  shows "\<exists>s3. credit s3 = credit s \<and> slotAvailable s3 = slotAvailable s \<and>
     processDispenseJob e s =
       resetDisplayToDefault (dwellEnd e)
         ((displayErrorMessage e ErrPurchaseAborted s3)
            \<lparr>dispenseJob := (dispenseJob (displayErrorMessage e ErrPurchaseAborted s3))\<lparr>active := False\<rparr>,
             billInhibit := False\<rparr>)"
proof -
  let ?r = "controlSlotRelay (wire1 e) (now e) (slot (dispenseJob s)) True
              (s\<lparr>currentSystemState := USER_INTERACTION, billInhibit := True\<rparr>)"
  let ?s3 = "logMessage (LogActivationError (slot (dispenseJob s) + 1)) (snd ?r)"
  from assms(3) have "\<not> fst ?r" by (auto simp add: controlSlotRelay_ok)
  with assms(1,2) have "processDispenseJob e s =
       resetDisplayToDefault (dwellEnd e)
         ((displayErrorMessage e ErrPurchaseAborted ?s3)
            \<lparr>dispenseJob := (dispenseJob (displayErrorMessage e ErrPurchaseAborted ?s3))\<lparr>active := False\<rparr>,
             billInhibit := False\<rparr>)"
    by (simp add: processDispenseJob_def Let_def split_beta)
  moreover have "credit ?s3 = credit s" "slotAvailable ?s3 = slotAvailable s"
    by (simp_all add: logMessage_def)
  ultimately show ?thesis by blast
qed

text \<open>
  C2, as stated, fails for the bus health probe: \<open>scheduleDispense\<close> never writes the
  bill-inhibit line. While bill pulses are pending, \<open>processBillAcceptorPulses\<close> holds
  the line high; a purchase requested then, with the relay board not answering the probe,
  is rejected with Credit untouched and no job, and the acceptor is still inhibited
  afterwards, not re-enabled.
\<close>

theorem probe_failure_keeps_inhibit_counterexample:
  "\<not> active (dispenseJob billsPending) \<and> billInhibit billsPending
   \<and> credit billsPending = 8 \<and> wire1 (deadBusEnv 5010) = 2
   \<and> billInhibit (scheduleDispense (deadBusEnv 5010) 3 billsPending)
   \<and> \<not> active (dispenseJob (scheduleDispense (deadBusEnv 5010) 3 billsPending))
   \<and> credit (scheduleDispense (deadBusEnv 5010) 3 billsPending) = 8
   \<and> slotAvailable (scheduleDispense (deadBusEnv 5010) 3 billsPending) = replicate 16 True
   \<and> filter isErrorScreen (out (scheduleDispense (deadBusEnv 5010) 3 billsPending)) =
       [Draw (ScreenError ErrBoardOffline)]"
  by code_simp

text \<open>
  C2, amended. A confirmed, eligible purchase debits Credit once, and an aborted one not
  at all; the job is cleared and the bill acceptor re-enabled when the relay activation
  fails, and the bill-inhibit line is left as it was when the bus probe fails.
  \<^item> When \<open>scheduleDispense\<close> accepts the request (no job active, the bus probe is
    answered), it touches neither credit nor stock; the first call of
    \<open>processDispenseJob\<close> whose relay activation succeeds subtracts the slot's price
    from Credit, stopping at zero, and marks the slot unavailable; whatever calls of
    \<open>processDispenseJob\<close> follow, with whatever clock and bus, change neither credit nor
    availability again. (A call of \<open>processDispenseJob\<close> on a job whose relay has been
    activated never touches credit or availability, whatever has happened in between,
    and leaves the flag \<open>relayActivated\<close> set.)
  \<^item> When the relay activation fails (the bus does not acknowledge, or the slot index is
    out of range), the purchase is aborted: Credit and the availability of every slot are
    as before, the error screen is drawn, the job is cleared, the bill-inhibit line is
    low, and no later call of \<open>processDispenseJob\<close> debits anything.
  \<^item> When the bus probe of \<open>scheduleDispense\<close> fails, the error screen is drawn, Credit
    and availability are as before and no job exists; this path never raised the
    bill-inhibit line, which is left as it was.
  The two error paths show the message for three seconds while the web server keeps
  serving requests; the statement is about the purchase and assumes of those requests
  what \<open>dwellFrame\<close> says.
\<close>

theorem purchase_debit_once_or_none:
  "(\<not> active (dispenseJob s) \<and> wire1 e0 = 0 \<and> 0 \<le> sl \<and> sl < MAX_SLOTS \<and> wire1 e1 = 0 \<longrightarrow>
      (let s1 = scheduleDispense e0 sl s;
           s2 = processDispenseJob e1 s1;
           d = credit s - slotPrices s ! nat sl
       in credit s1 = credit s \<and> slotAvailable s1 = slotAvailable s
        \<and> credit s2 = (if d < 0 then 0 else d)
        \<and> slotAvailable s2 = (slotAvailable s)[nat sl := False]
        \<and> (\<forall>es. credit (dispenseTicks es s2) = credit s2
               \<and> slotAvailable (dispenseTicks es s2) = slotAvailable s2)))
 \<and> (active (dispenseJob s) \<and> \<not> relayActivated (dispenseJob s)
      \<and> (slot (dispenseJob s) < 0 \<or> MAX_SLOTS \<le> slot (dispenseJob s) \<or> wire1 e \<noteq> 0)
      \<and> dwellFrame (web e) \<longrightarrow>
      (let s' = processDispenseJob e s
       in credit s' = credit s \<and> slotAvailable s' = slotAvailable s
        \<and> \<not> active (dispenseJob s') \<and> \<not> billInhibit s'
        \<and> Draw (ScreenError ErrPurchaseAborted) \<in> set (out s')
        \<and> (\<forall>es. credit (dispenseTicks es s') = credit s
               \<and> slotAvailable (dispenseTicks es s') = slotAvailable s)))
 \<and> (\<not> active (dispenseJob s) \<and> wire1 e \<noteq> 0 \<and> dwellFrame (web e) \<longrightarrow>
      (let s' = scheduleDispense e sl s
       in credit s' = credit s \<and> slotAvailable s' = slotAvailable s
        \<and> dispenseJob s' = dispenseJob s \<and> \<not> active (dispenseJob s')
        \<and> billInhibit s' = billInhibit s
        \<and> Draw (ScreenError ErrBoardOffline) \<in> set (out s')
        \<and> (\<forall>es. credit (dispenseTicks es s') = credit s
               \<and> slotAvailable (dispenseTicks es s') = slotAvailable s)))
 \<and> (active (dispenseJob s) \<longrightarrow> relayActivated (dispenseJob s) \<longrightarrow>
      credit (processDispenseJob e s) = credit s
    \<and> slotAvailable (processDispenseJob e s) = slotAvailable s
    \<and> relayActivated (dispenseJob (processDispenseJob e s)))"
proof (intro conjI impI)
  assume a: "\<not> active (dispenseJob s) \<and> wire1 e0 = 0 \<and> 0 \<le> sl \<and> sl < MAX_SLOTS \<and> wire1 e1 = 0"
  let ?s1 = "scheduleDispense e0 sl s"
  let ?s2 = "processDispenseJob e1 ?s1"
  from a have s1: "credit ?s1 = credit s" "slotAvailable ?s1 = slotAvailable s"
    "slotPrices ?s1 = slotPrices s"
    "dispenseJob ?s1 = \<lparr>active = True, slot = sl, startTime = now e0, relayActivated = False\<rparr>"
    by (simp_all add: scheduleDispense_accepted)
  from a s1(4) have job: "active (dispenseJob ?s1)" "\<not> relayActivated (dispenseJob ?s1)"
    "0 \<le> slot (dispenseJob ?s1)" "slot (dispenseJob ?s1) < MAX_SLOTS" "wire1 e1 = 0"
    by simp_all
  have s2: "credit ?s2 = (if credit s - slotPrices s ! nat sl < 0 then 0
                          else credit s - slotPrices s ! nat sl)"
    "slotAvailable ?s2 = (slotAvailable s)[nat sl := False]"
    "relayActivated (dispenseJob ?s2)"
    using processDispenseJob_activated [OF job] by (simp_all add: s1)
  from s2(3) have later: "credit (dispenseTicks es ?s2) = credit ?s2
      \<and> slotAvailable (dispenseTicks es ?s2) = slotAvailable ?s2" for es
    by (simp add: dispenseTicks_settled)
  show "let s1 = scheduleDispense e0 sl s;
           s2 = processDispenseJob e1 s1;
           d = credit s - slotPrices s ! nat sl
       in credit s1 = credit s \<and> slotAvailable s1 = slotAvailable s
        \<and> credit s2 = (if d < 0 then 0 else d)
        \<and> slotAvailable s2 = (slotAvailable s)[nat sl := False]
        \<and> (\<forall>es. credit (dispenseTicks es s2) = credit s2
               \<and> slotAvailable (dispenseTicks es s2) = slotAvailable s2)"
    unfolding Let_def using s1(1,2) s2(1,2) later by blast
next
  assume b: "active (dispenseJob s) \<and> \<not> relayActivated (dispenseJob s)
      \<and> (slot (dispenseJob s) < 0 \<or> MAX_SLOTS \<le> slot (dispenseJob s) \<or> wire1 e \<noteq> 0)
      \<and> dwellFrame (web e)"
  then have w: "dwellFrame (web e)" by simp
  from b obtain s3 where s3: "credit s3 = credit s" "slotAvailable s3 = slotAvailable s"
    and step: "processDispenseJob e s =
       resetDisplayToDefault (dwellEnd e)
         ((displayErrorMessage e ErrPurchaseAborted s3)
            \<lparr>dispenseJob := (dispenseJob (displayErrorMessage e ErrPurchaseAborted s3))\<lparr>active := False\<rparr>,
             billInhibit := False\<rparr>)"
    using processDispenseJob_aborted [of s e] by blast
  let ?s' = "processDispenseJob e s"
  have r: "credit ?s' = credit s" "slotAvailable ?s' = slotAvailable s"
    "\<not> active (dispenseJob ?s')" "\<not> billInhibit ?s'"
    "Draw (ScreenError ErrPurchaseAborted) \<in> set (out ?s')"
    unfolding step using displayErrorMessage_frame [OF w, where m = ErrPurchaseAborted and s = s3] s3
    by (simp_all add: resetDisplayToDefault_def)
  from r(3) have later: "credit (dispenseTicks es ?s') = credit ?s'
      \<and> slotAvailable (dispenseTicks es ?s') = slotAvailable ?s'" for es
    by (simp add: dispenseTicks_settled)
  show "let s' = processDispenseJob e s
       in credit s' = credit s \<and> slotAvailable s' = slotAvailable s
        \<and> \<not> active (dispenseJob s') \<and> \<not> billInhibit s'
        \<and> Draw (ScreenError ErrPurchaseAborted) \<in> set (out s')
        \<and> (\<forall>es. credit (dispenseTicks es s') = credit s
               \<and> slotAvailable (dispenseTicks es s') = slotAvailable s)"
    unfolding Let_def using r later by simp
next
  assume c: "\<not> active (dispenseJob s) \<and> wire1 e \<noteq> 0 \<and> dwellFrame (web e)"
  then have w: "dwellFrame (web e)" and idle: "\<not> active (dispenseJob s)" by simp_all
  let ?s' = "scheduleDispense e sl s"
  from c have step: "?s' = displayErrorMessage e ErrBoardOffline
       (logMessage (LogBoardUnreachable (wire1 e))
          (emit BusProbe (logMessage (LogScheduleCalled (sl + 1)) s)))"
    by (simp add: scheduleDispense_offline)
  have r: "credit ?s' = credit s" "slotAvailable ?s' = slotAvailable s"
    "dispenseJob ?s' = dispenseJob s" "billInhibit ?s' = billInhibit s"
    "Draw (ScreenError ErrBoardOffline) \<in> set (out ?s')"
    unfolding step by (simp_all add: displayErrorMessage_frame [OF w] logMessage_def)
  from r(3) idle have later: "credit (dispenseTicks es ?s') = credit ?s'
      \<and> slotAvailable (dispenseTicks es ?s') = slotAvailable ?s'" for es
    by (simp add: dispenseTicks_settled)
  show "let s' = scheduleDispense e sl s
       in credit s' = credit s \<and> slotAvailable s' = slotAvailable s
        \<and> dispenseJob s' = dispenseJob s \<and> \<not> active (dispenseJob s')
        \<and> billInhibit s' = billInhibit s
        \<and> Draw (ScreenError ErrBoardOffline) \<in> set (out s')
        \<and> (\<forall>es. credit (dispenseTicks es s') = credit s
               \<and> slotAvailable (dispenseTicks es s') = slotAvailable s)"
    unfolding Let_def using r later idle by simp
next
  assume "relayActivated (dispenseJob s)"
  then show "credit (processDispenseJob e s) = credit s"
    "slotAvailable (processDispenseJob e s) = slotAvailable s"
    "relayActivated (dispenseJob (processDispenseJob e s))"
    by (simp_all add: processDispenseJob_open)
qed


lemma dwellFrame_calm: "dwellFrame (web (calmEnv t))" "dwellFrame (web (deadBusEnv t))"
  by (simp_all add: dwellFrame_def calmEnv_def deadBusEnv_def)

theorem purchase_debit_once_or_none_witness:
  "(\<not> active (dispenseJob paidMachine) \<and> wire1 (calmEnv 1000) = 0 \<and> (0::int) \<le> 3
      \<and> 3 < MAX_SLOTS \<and> wire1 (calmEnv 1010) = 0
      \<and> credit (processDispenseJob (calmEnv 1010) (scheduleDispense (calmEnv 1000) 3 paidMachine))
          = 27 / 10
      \<and> credit (dispenseTicks [calmEnv 1020, calmEnv 7000, calmEnv 7010]
           (processDispenseJob (calmEnv 1010) (scheduleDispense (calmEnv 1000) 3 paidMachine)))
          = 27 / 10)
 \<and> (active (dispenseJob pendingMachine) \<and> \<not> relayActivated (dispenseJob pendingMachine)
      \<and> wire1 (deadBusEnv 1010) \<noteq> 0 \<and> dwellFrame (web (deadBusEnv 1010))
      \<and> credit (processDispenseJob (deadBusEnv 1010) pendingMachine) = 8
      \<and> slotAvailable (processDispenseJob (deadBusEnv 1010) pendingMachine) = replicate 16 True
      \<and> \<not> active (dispenseJob (processDispenseJob (deadBusEnv 1010) pendingMachine))
      \<and> \<not> billInhibit (processDispenseJob (deadBusEnv 1010) pendingMachine))
 \<and> (wire1 (deadBusEnv 1000) \<noteq> 0 \<and> dwellFrame (web (deadBusEnv 1000))
      \<and> credit (scheduleDispense (deadBusEnv 1000) 3 paidMachine) = 8
      \<and> \<not> active (dispenseJob (scheduleDispense (deadBusEnv 1000) 3 paidMachine)))
 \<and> (active (dispenseJob busyMachine) \<and> relayActivated (dispenseJob busyMachine)
      \<and> credit (processDispenseJob (calmEnv 2000) busyMachine) = credit busyMachine)"
proof -
  have hyps: "\<not> active (dispenseJob paidMachine)" "wire1 (calmEnv 1000) = 0" "(3::int) < MAX_SLOTS"
    "wire1 (calmEnv 1010) = 0" "active (dispenseJob pendingMachine)"
    "\<not> relayActivated (dispenseJob pendingMachine)" "wire1 (deadBusEnv 1010) \<noteq> 0"
    "wire1 (deadBusEnv 1000) \<noteq> 0"
    "credit paidMachine = 8" "credit pendingMachine = 8"
    "slotAvailable pendingMachine = replicate 16 True"
    "slotPrices paidMachine ! 3 = 53 / 10"
    "active (dispenseJob busyMachine)" "relayActivated (dispenseJob busyMachine)"
    by (simp_all add: paidMachine_def pendingMachine_def busyMachine_def initialMachine_def calmEnv_def
        deadBusEnv_def MAX_SLOTS_def)
  show ?thesis
    using purchase_debit_once_or_none [of paidMachine "calmEnv 1000" 3 "calmEnv 1010" "deadBusEnv 1000"]
      purchase_debit_once_or_none [of pendingMachine "calmEnv 1000" 3 "calmEnv 1010" "deadBusEnv 1010"]
      purchase_debit_once_or_none [of busyMachine "calmEnv 1000" 3 "calmEnv 1010" "calmEnv 2000"]
      hyps dwellFrame_calm
    by (simp add: Let_def del: dispenseTicks.simps)
qed

subsection \<open>Digit entry\<close>

lemma manualGetKeyState_frame [simp]:
  "keypadInputBuffer (snd (manualGetKeyState pins t s)) = keypadInputBuffer s"
  "activeSlots (snd (manualGetKeyState pins t s)) = activeSlots s"
  "selectedSlot (snd (manualGetKeyState pins t s)) = selectedSlot s"
  "out (snd (manualGetKeyState pins t s)) = out s"
  by (simp_all add: manualGetKeyState_def Let_def)

lemma toInt_digits [simp]:
  "toInt ''1'' = 1" "toInt ''16'' = 16" "toInt ''9'' = 9" "toInt ''99'' = 99"
  by (simp_all add: toInt_def isspace_def isdigit_def)

lemma isdigit_keys [simp]:
  "isdigit CHR ''1''" "isdigit CHR ''6''" "isdigit CHR ''9''"
  by (simp_all add: isdigit_def)

text \<open>What \<open>processKeypad\<close> does with a digit, in terms of \<open>processKeypadSelection\<close>.\<close>

lemma processKeypad_digit:
  assumes "fst (manualGetKeyState pins (now e) s) = key" and "key \<noteq> NOKEY" and "isdigit key"
  shows "\<exists>s7. keypadInputBuffer s7 =
                 (if length (keypadInputBuffer s) \<ge> 2 then [] else keypadInputBuffer s) @ [key]
             \<and> activeSlots s7 = activeSlots s
             \<and> out s7 = out s @ [Sound KeyBeep, Log (LogKey key), Log (LogBuffer (keypadInputBuffer s7))]
             \<and> processKeypad pins e s = (processKeypadSelection e s7)\<lparr>displayNeedsUpdate := True\<rparr>"
proof -
  let ?s0 = "snd (manualGetKeyState pins (now e) s)"
  let ?s4 = "(logMessage (LogKey key) (emit (Sound KeyBeep) ?s0))
               \<lparr>lastUserInteractionTime := now e, currentSystemState := USER_INTERACTION,
                lastKeypadInputTime := now e\<rparr>"
  let ?s5 = "if length (keypadInputBuffer ?s4) \<ge> 2 then ?s4\<lparr>keypadInputBuffer := []\<rparr> else ?s4"
  let ?s6 = "?s5\<lparr>keypadInputBuffer := keypadInputBuffer ?s5 @ [key]\<rparr>"
  let ?s7 = "logMessage (LogBuffer (keypadInputBuffer ?s6)) ?s6"
  have "processKeypad pins e s = (processKeypadSelection e ?s7)\<lparr>displayNeedsUpdate := True\<rparr>"
    using assms by (simp add: processKeypad_def Let_def split_beta)
  moreover have "keypadInputBuffer ?s7 =
      (if length (keypadInputBuffer s) \<ge> 2 then [] else keypadInputBuffer s) @ [key]"
    "activeSlots ?s7 = activeSlots s"
    "out ?s7 = out s @ [Sound KeyBeep, Log (LogKey key), Log (LogBuffer (keypadInputBuffer ?s7))]"
    by (simp_all add: logMessage_def emit_def)
  ultimately show ?thesis by blast
qed

lemma processKeypadSelection_valid:
  assumes "keypadInputBuffer s \<noteq> []"
    and "1 \<le> toInt (keypadInputBuffer s)" and "toInt (keypadInputBuffer s) \<le> activeSlots s"
  shows "selectedSlot (processKeypadSelection e s) = toInt (keypadInputBuffer s) - 1"
    and "activeSlots (processKeypadSelection e s) = activeSlots s"
    and "keypadInputBuffer (processKeypadSelection e s) =
          (if length (keypadInputBuffer s) = 2 \<or> activeSlots s < 10
              \<or> (length (keypadInputBuffer s) = 1 \<and> activeSlots s div 10 < toInt (keypadInputBuffer s))
           then [] else keypadInputBuffer s)"
    and "out (processKeypadSelection e s) = out s @
          [Log (LogSelection (keypadInputBuffer s) (toInt (keypadInputBuffer s))),
           Log (LogSlotSelected (toInt (keypadInputBuffer s))),
           Log (if length (keypadInputBuffer s) = 2 \<or> activeSlots s < 10
              \<or> (length (keypadInputBuffer s) = 1 \<and> activeSlots s div 10 < toInt (keypadInputBuffer s))
                then LogSelectionFinal (keypadInputBuffer s) else LogWaitSecondDigit)]"
  using assms by (auto simp add: processKeypadSelection_def Let_def logMessage_def emit_def)

text \<open>
  C6. With \<open>activeSlots = 16\<close> and an empty input buffer, a tick in which the keypad
  resolver reports the digit 1 selects slot 1 (index 0) and keeps the buffer \<open>"1"\<close>:
  the log says the firmware waits for a second digit. With the buffer \<open>"1"\<close>, a tick in
  which the resolver reports 6 makes the buffer \<open>"16"\<close> (as logged), selects slot 16
  (index 15) and clears the buffer, the selection being final.
\<close>

theorem digits_1_then_6_select_slot_16:
  "(activeSlots s = 16 \<and> keypadInputBuffer s = []
      \<and> fst (manualGetKeyState pins (now e) s) = CHR ''1'' \<longrightarrow>
      (let s1 = processKeypad pins e s
       in selectedSlot s1 = 0 \<and> keypadInputBuffer s1 = ''1'' \<and> activeSlots s1 = 16
        \<and> out s1 = out s @
            [Sound KeyBeep, Log (LogKey CHR ''1''), Log (LogBuffer ''1''),
             Log (LogSelection ''1'' 1), Log (LogSlotSelected 1), Log LogWaitSecondDigit]))
 \<and> (activeSlots s' = 16 \<and> keypadInputBuffer s' = ''1''
      \<and> fst (manualGetKeyState pins' (now e') s') = CHR ''6'' \<longrightarrow>
      (let s2 = processKeypad pins' e' s'
       in selectedSlot s2 = 15 \<and> keypadInputBuffer s2 = []
        \<and> out s2 = out s' @
            [Sound KeyBeep, Log (LogKey CHR ''6''), Log (LogBuffer ''16''),
             Log (LogSelection ''16'' 16), Log (LogSlotSelected 16),
             Log (LogSelectionFinal ''16'')]))"
proof (intro conjI impI)
  assume a: "activeSlots s = 16 \<and> keypadInputBuffer s = []
      \<and> fst (manualGetKeyState pins (now e) s) = CHR ''1''"
  then obtain s7 where s7: "keypadInputBuffer s7 = ''1''" "activeSlots s7 = 16"
      "out s7 = out s @ [Sound KeyBeep, Log (LogKey CHR ''1''), Log (LogBuffer ''1'')]"
    and step: "processKeypad pins e s = (processKeypadSelection e s7)\<lparr>displayNeedsUpdate := True\<rparr>"
    using processKeypad_digit [of pins e s "CHR ''1''"] by (auto simp add: NOKEY_def)
  from s7 have v: "keypadInputBuffer s7 \<noteq> []" "1 \<le> toInt (keypadInputBuffer s7)"
    "toInt (keypadInputBuffer s7) \<le> activeSlots s7" by simp_all
  show "let s1 = processKeypad pins e s
       in selectedSlot s1 = 0 \<and> keypadInputBuffer s1 = ''1'' \<and> activeSlots s1 = 16
        \<and> out s1 = out s @
            [Sound KeyBeep, Log (LogKey CHR ''1''), Log (LogBuffer ''1''),
             Log (LogSelection ''1'' 1), Log (LogSlotSelected 1), Log LogWaitSecondDigit]"
    unfolding Let_def step using processKeypadSelection_valid [OF v, of e] s7 by simp
next
  assume a: "activeSlots s' = 16 \<and> keypadInputBuffer s' = ''1''
      \<and> fst (manualGetKeyState pins' (now e') s') = CHR ''6''"
  then obtain s7 where s7: "keypadInputBuffer s7 = ''16''" "activeSlots s7 = 16"
      "out s7 = out s' @ [Sound KeyBeep, Log (LogKey CHR ''6''), Log (LogBuffer ''16'')]"
    and step: "processKeypad pins' e' s' = (processKeypadSelection e' s7)\<lparr>displayNeedsUpdate := True\<rparr>"
    using processKeypad_digit [of pins' e' s' "CHR ''6''"] by (auto simp add: NOKEY_def)
  from s7 have v: "keypadInputBuffer s7 \<noteq> []" "1 \<le> toInt (keypadInputBuffer s7)"
    "toInt (keypadInputBuffer s7) \<le> activeSlots s7" by simp_all
  show "let s2 = processKeypad pins' e' s'
       in selectedSlot s2 = 15 \<and> keypadInputBuffer s2 = []
        \<and> out s2 = out s' @
            [Sound KeyBeep, Log (LogKey CHR ''6''), Log (LogBuffer ''16''),
             Log (LogSelection ''16'' 16), Log (LogSlotSelected 16),
             Log (LogSelectionFinal ''16'')]"
    unfolding Let_def step using processKeypadSelection_valid [OF v, of e'] s7 by simp
qed

lemma sensed_facts:
  "activeSlots oneSensed = 16" "keypadInputBuffer oneSensed = []"
  "fst (manualGetKeyState (keyDown 0 0) (now (calmEnv 1100)) oneSensed) = CHR ''1''"
  "activeSlots sixSensed = 16" "keypadInputBuffer sixSensed = ''1''"
  "fst (manualGetKeyState (keyDown 1 2) (now (calmEnv 1400)) sixSensed) = CHR ''6''"
  by code_simp+

theorem digits_1_then_6_select_slot_16_witness:
  "activeSlots oneSensed = 16 \<and> keypadInputBuffer oneSensed = []
   \<and> fst (manualGetKeyState (keyDown 0 0) (now (calmEnv 1100)) oneSensed) = CHR ''1''
   \<and> selectedSlot (processKeypad (keyDown 0 0) (calmEnv 1100) oneSensed) = 0
   \<and> keypadInputBuffer (processKeypad (keyDown 0 0) (calmEnv 1100) oneSensed) = ''1''
   \<and> activeSlots sixSensed = 16 \<and> keypadInputBuffer sixSensed = ''1''
   \<and> fst (manualGetKeyState (keyDown 1 2) (now (calmEnv 1400)) sixSensed) = CHR ''6''
   \<and> selectedSlot (processKeypad (keyDown 1 2) (calmEnv 1400) sixSensed) = 15
   \<and> keypadInputBuffer (processKeypad (keyDown 1 2) (calmEnv 1400) sixSensed) = []"
  using digits_1_then_6_select_slot_16 [of oneSensed "keyDown 0 0" "calmEnv 1100"
      sixSensed "keyDown 1 2" "calmEnv 1400"] sensed_facts
  by (simp add: Let_def)

lemma processKeypadSelection_invalid:
  assumes "length (keypadInputBuffer s) = 2"
    and "toInt (keypadInputBuffer s) < 1 \<or> activeSlots s < toInt (keypadInputBuffer s)"
  shows "processKeypadSelection e s =
           (displayErrorMessage e (ErrSlotInvalid (keypadInputBuffer s))
              (logMessage (LogSelection (keypadInputBuffer s) (toInt (keypadInputBuffer s))) s))
           \<lparr>selectedSlot := -1, keypadInputBuffer := [], displayNeedsUpdate := True\<rparr>"
proof -
  from assms(1) have "keypadInputBuffer s \<noteq> []" by auto
  with assms show ?thesis
    by (auto simp add: processKeypadSelection_def Let_def logMessage_def emit_def)
qed

text \<open>
  C5, as stated, fails: on a freshly booted machine (16 active slots) the key 9 is pressed,
  released and pressed again. Each 9 is a valid slot number whose first digit is too large
  to start a two-digit one, so it is final at once and the buffer is cleared: the buffer
  never holds \<open>"99"\<close>, slot 9 (index 8) stays selected and no error is shown.
\<close>

theorem digits_9_9_counterexample:
  "activeSlots initialMachine = 16 \<and> keypadInputBuffer initialMachine = []
   \<and> selectedSlot (keypadTicks nineTwice initialMachine) = 8
   \<and> out (keypadTicks nineTwice initialMachine) =
       [Sound KeyBeep, Log (LogKey CHR ''9''), Log (LogBuffer ''9''),
        Log (LogSelection ''9'' 9), Log (LogSlotSelected 9), Log (LogSelectionFinal ''9''),
        Sound KeyBeep, Log (LogKey CHR ''9''), Log (LogBuffer ''9''),
        Log (LogSelection ''9'' 9), Log (LogSlotSelected 9), Log (LogSelectionFinal ''9'')]"
  by code_simp

text \<open>
  C5, amended. With \<open>activeSlots = 16\<close>, a 9 entered on an empty buffer selects slot 9
  (index 8) and clears the buffer at once, without an error, so that "9" then "9" selects
  slot 9 twice. The invalid-slot error belongs to a buffer of two digits that denotes no
  slot in 1..16: when one digit is pending and the digit now reported completes such a
  number (as 1 then 7 does), the error screen for that number is drawn, \<open>selectedSlot\<close>
  becomes -1 and the buffer is cleared.
\<close>

theorem invalid_two_digit_slot:
  "(activeSlots s = 16 \<and> keypadInputBuffer s = []
      \<and> fst (manualGetKeyState pins (now e) s) = CHR ''9'' \<longrightarrow>
      (let s1 = processKeypad pins e s
       in selectedSlot s1 = 8 \<and> keypadInputBuffer s1 = [] \<and> activeSlots s1 = 16
        \<and> out s1 = out s @
            [Sound KeyBeep, Log (LogKey CHR ''9''), Log (LogBuffer ''9''),
             Log (LogSelection ''9'' 9), Log (LogSlotSelected 9), Log (LogSelectionFinal ''9'')]))
 \<and> (activeSlots s' = 16 \<and> length (keypadInputBuffer s') = 1 \<and> isdigit key
      \<and> fst (manualGetKeyState pins' (now e') s') = key
      \<and> (toInt (keypadInputBuffer s' @ [key]) < 1 \<or> 16 < toInt (keypadInputBuffer s' @ [key]))
      \<and> dwellFrame (web e') \<longrightarrow>
      (let s2 = processKeypad pins' e' s'
       in selectedSlot s2 = -1 \<and> keypadInputBuffer s2 = []
        \<and> Draw (ScreenError (ErrSlotInvalid (keypadInputBuffer s' @ [key]))) \<in> set (out s2)))"
proof (intro conjI impI)
  assume a: "activeSlots s = 16 \<and> keypadInputBuffer s = []
      \<and> fst (manualGetKeyState pins (now e) s) = CHR ''9''"
  then obtain s7 where s7: "keypadInputBuffer s7 = ''9''" "activeSlots s7 = 16"
      "out s7 = out s @ [Sound KeyBeep, Log (LogKey CHR ''9''), Log (LogBuffer ''9'')]"
    and step: "processKeypad pins e s = (processKeypadSelection e s7)\<lparr>displayNeedsUpdate := True\<rparr>"
    using processKeypad_digit [of pins e s "CHR ''9''"] by (auto simp add: NOKEY_def)
  from s7 have v: "keypadInputBuffer s7 \<noteq> []" "1 \<le> toInt (keypadInputBuffer s7)"
    "toInt (keypadInputBuffer s7) \<le> activeSlots s7" by simp_all
  show "let s1 = processKeypad pins e s
       in selectedSlot s1 = 8 \<and> keypadInputBuffer s1 = [] \<and> activeSlots s1 = 16
        \<and> out s1 = out s @
            [Sound KeyBeep, Log (LogKey CHR ''9''), Log (LogBuffer ''9''),
             Log (LogSelection ''9'' 9), Log (LogSlotSelected 9), Log (LogSelectionFinal ''9'')]"
    unfolding Let_def step using processKeypadSelection_valid [OF v, of e] s7 by simp
next
  let ?b = "keypadInputBuffer s' @ [key]"
  assume a: "activeSlots s' = 16 \<and> length (keypadInputBuffer s') = 1 \<and> isdigit key
      \<and> fst (manualGetKeyState pins' (now e') s') = key
      \<and> (toInt ?b < 1 \<or> 16 < toInt ?b) \<and> dwellFrame (web e')"
  then have w: "dwellFrame (web e')" by simp
  from a have "key \<noteq> NOKEY" by (auto simp add: isdigit_def NOKEY_def)
  with a obtain s7 where s7: "keypadInputBuffer s7 = ?b" "activeSlots s7 = 16"
    and step: "processKeypad pins' e' s' = (processKeypadSelection e' s7)\<lparr>displayNeedsUpdate := True\<rparr>"
    using processKeypad_digit [of pins' e' s' key] by auto
  from a s7 have i: "length (keypadInputBuffer s7) = 2"
    "toInt (keypadInputBuffer s7) < 1 \<or> activeSlots s7 < toInt (keypadInputBuffer s7)"
    by simp_all
  show "let s2 = processKeypad pins' e' s'
       in selectedSlot s2 = -1 \<and> keypadInputBuffer s2 = []
        \<and> Draw (ScreenError (ErrSlotInvalid ?b)) \<in> set (out s2)"
    unfolding Let_def step processKeypadSelection_invalid [OF i]
    using displayErrorMessage_frame(5) [OF w, where m = "ErrSlotInvalid ?b"]
    by (simp add: s7)
qed

lemma nine_seven_facts:
  "activeSlots nineSensed = 16" "keypadInputBuffer nineSensed = []"
  "fst (manualGetKeyState (keyDown 2 2) (now (calmEnv 1100)) nineSensed) = CHR ''9''"
  "activeSlots sevenSensed = 16" "keypadInputBuffer sevenSensed = ''1''"
  "fst (manualGetKeyState (keyDown 2 0) (now (calmEnv 1400)) sevenSensed) = CHR ''7''"
  by code_simp+

theorem invalid_two_digit_slot_witness:
  "activeSlots nineSensed = 16 \<and> keypadInputBuffer nineSensed = []
   \<and> fst (manualGetKeyState (keyDown 2 2) (now (calmEnv 1100)) nineSensed) = CHR ''9''
   \<and> selectedSlot (processKeypad (keyDown 2 2) (calmEnv 1100) nineSensed) = 8
   \<and> activeSlots sevenSensed = 16 \<and> length (keypadInputBuffer sevenSensed) = 1
   \<and> isdigit CHR ''7''
   \<and> fst (manualGetKeyState (keyDown 2 0) (now (calmEnv 1400)) sevenSensed) = CHR ''7''
   \<and> 16 < toInt (keypadInputBuffer sevenSensed @ [CHR ''7''])
   \<and> dwellFrame (web (calmEnv 1400))
   \<and> selectedSlot (processKeypad (keyDown 2 0) (calmEnv 1400) sevenSensed) = -1
   \<and> keypadInputBuffer (processKeypad (keyDown 2 0) (calmEnv 1400) sevenSensed) = []
   \<and> Draw (ScreenError (ErrSlotInvalid ''17''))
        \<in> set (out (processKeypad (keyDown 2 0) (calmEnv 1400) sevenSensed))"
proof -
  have t: "toInt ''17'' = 17" "isdigit CHR ''7''"
    by (simp_all add: toInt_def isspace_def isdigit_def)
  show ?thesis
    using invalid_two_digit_slot [of nineSensed "keyDown 2 2" "calmEnv 1100"
        sevenSensed "CHR ''7''" "keyDown 2 0" "calmEnv 1400"] nine_seven_facts t
      dwellFrame_calm(1) [of 1400]
    by (simp add: Let_def)
qed

subsection \<open>Credit and zero\<close>

text \<open>
  The paths that clamp or only add: a coin, a bill, a purchase and the reset leave a
  non-negative Credit non-negative.
\<close>

lemma processAcceptedCoin_credit_nonneg:
  "0 \<le> credit s \<Longrightarrow> 0 \<le> credit (processAcceptedCoin t s)"
  by (simp add: processAcceptedCoin_def Let_def logMessage_def)

lemma processBillAcceptorPulses_credit_nonneg:
  "0 \<le> credit s \<Longrightarrow> 0 \<le> credit (processBillAcceptorPulses t s)"
  by (simp add: processBillAcceptorPulses_def Let_def logMessage_def)

lemma handleResetCreditWeb_credit_nonneg:
  "0 \<le> credit s \<Longrightarrow> 0 \<le> credit (handleResetCreditWeb t s)"
  by (simp add: handleResetCreditWeb_def Let_def logMessage_def)

lemma processDispenseJob_credit_nonneg:
  assumes "0 \<le> credit s" and "dwellFrame (web e)"
  shows "0 \<le> credit (processDispenseJob e s)"
proof (cases "\<not> active (dispenseJob s) \<or> relayActivated (dispenseJob s)")
  case True
  then show ?thesis using assms(1) by (simp add: processDispenseJob_settled)
next
  case False
  then have j: "active (dispenseJob s)" "\<not> relayActivated (dispenseJob s)" by simp_all
  show ?thesis
  proof (cases "0 \<le> slot (dispenseJob s) \<and> slot (dispenseJob s) < MAX_SLOTS \<and> wire1 e = 0")
    case True
    then show ?thesis using processDispenseJob_activated(1) [OF j, of e] by simp
  next
    case False
    then have "slot (dispenseJob s) < 0 \<or> MAX_SLOTS \<le> slot (dispenseJob s) \<or> wire1 e \<noteq> 0"
      by auto
    from processDispenseJob_aborted [OF j this] obtain s3 where "credit s3 = credit s"
      and "processDispenseJob e s =
       resetDisplayToDefault (dwellEnd e)
         ((displayErrorMessage e ErrPurchaseAborted s3)
            \<lparr>dispenseJob := (dispenseJob (displayErrorMessage e ErrPurchaseAborted s3))\<lparr>active := False\<rparr>,
             billInhibit := False\<rparr>)"
      by blast
    then show ?thesis
      using assms(1) displayErrorMessage_frame(1) [OF assms(2), where m = ErrPurchaseAborted and s = s3]
      by (simp add: resetDisplayToDefault_def)
  qed
qed

text \<open>
  C3. Credit is meant never to be negative, and the purchase path clamps it
  (\<open>if (credit < 0) credit = 0\<close>). The administrative adjustment does not: the form
  field is labelled "Guthaben +/-" and \<open>handleAddCreditWeb\<close> adds any non-zero amount
  as it is. With one euro of credit, an adjustment by -5 leaves Credit at -4.
\<close>

theorem handleAddCreditWeb_negative_credit:
  "isAuthenticated adminMachine \<and> 0 \<le> credit adminMachine
   \<and> credit (handleAddCreditWeb 5000 (Some (-5)) adminMachine) = -4
   \<and> credit (handleAddCreditWeb 5000 (Some (-5)) adminMachine) < 0
   \<and> Persist (StoredCredit (-4)) \<in> set (out (handleAddCreditWeb 5000 (Some (-5)) adminMachine))"
  by (simp add: handleAddCreditWeb_def adminMachine_def initialMachine_def Let_def
      logMessage_def emit_def)

subsection \<open>Stock notifications\<close>

lemma countAvailableSlots_setSlots:
  "activeSlots x = activeSlots y \<Longrightarrow>
   countAvailableSlots (setSlots c x) = countAvailableSlots (setSlots c y)"
  by (simp add: countAvailableSlots_def setSlots_def)

lemma checkOverallStockLevel_config [simp]:
  "activeSlots (checkOverallStockLevel e s) = activeSlots s"
  "almostEmptyThreshold (checkOverallStockLevel e s) = almostEmptyThreshold s"
  by (simp_all add: checkOverallStockLevel_def Let_def sendTelegramMessage_def logMessage_def emit_def)

lemma setSlots_config [simp]:
  "activeSlots (setSlots c s) = activeSlots s"
  "almostEmptyThreshold (setSlots c s) = almostEmptyThreshold s"
  "almostEmptyNotificationSent (setSlots c s) = almostEmptyNotificationSent s"
  "emptyNotificationSent (setSlots c s) = emptyNotificationSent s"
  "out (setSlots c s) = out s"
  by (simp_all add: setSlots_def)

lemma sendTelegramMessage_sent:
  assumes "canSend e s"
  shows "out (sendTelegramMessage e m s) = out s @
           [Log (LogTelegramSending m), Telegram m,
            Log (if botSendOk e then LogTelegramSent else LogTelegramFailed)]"
  using assms by (simp add: canSend_def sendTelegramMessage_def Let_def logMessage_def emit_def)

lemma checkOverallStockLevel_latched:
  assumes "almostEmptyNotificationSent s" and "countAvailableSlots s \<le> almostEmptyThreshold s"
  shows "almostEmptyNotificationSent (checkOverallStockLevel e s)"
    and "filter isAlmostEmpty (out (checkOverallStockLevel e s)) = filter isAlmostEmpty (out s)"
  using assms
  by (simp_all add: checkOverallStockLevel_def Let_def sendTelegramMessage_def logMessage_def emit_def)

lemma stockChecks_latched:
  assumes "almostEmptyNotificationSent x"
    and "\<forall>c\<in>set cs. countAvailableSlots (setSlots (snd c) x) \<le> almostEmptyThreshold x"
  shows "filter isAlmostEmpty (out (stockChecks cs x)) = filter isAlmostEmpty (out x)
         \<and> almostEmptyNotificationSent (stockChecks cs x)"
  using assms
proof (induction cs arbitrary: x)
  case Nil
  then show ?case by simp
next
  case (Cons c cs)
  obtain e k where c: "c = (e, k)" by (cases c)
  let ?y = "checkOverallStockLevel e (setSlots k x)"
  from Cons.prems have k: "almostEmptyNotificationSent (setSlots k x)"
    "countAvailableSlots (setSlots k x) \<le> almostEmptyThreshold (setSlots k x)"
    by (simp_all add: c)
  have y: "almostEmptyNotificationSent ?y"
    "filter isAlmostEmpty (out ?y) = filter isAlmostEmpty (out x)"
    using checkOverallStockLevel_latched [OF k, of e] by simp_all
  have "\<forall>d\<in>set cs. countAvailableSlots (setSlots (snd d) ?y) \<le> almostEmptyThreshold ?y"
  proof
    fix d assume "d \<in> set cs"
    with Cons.prems(2)
    have "countAvailableSlots (setSlots (snd d) x) \<le> almostEmptyThreshold x" by simp
    moreover
    have "countAvailableSlots (setSlots (snd d) ?y) = countAvailableSlots (setSlots (snd d) x)"
      by (rule countAvailableSlots_setSlots) simp
    ultimately show "countAvailableSlots (setSlots (snd d) ?y) \<le> almostEmptyThreshold ?y"
      by simp
  qed
  from Cons.IH [OF y(1) this] y(2) show ?case by (simp add: c)
qed

lemma checkOverallStockLevel_sold_out:
  assumes "emptyNotificationSent s" and "almostEmptyNotificationSent s"
    and "countAvailableSlots s = 0" and "0 \<le> almostEmptyThreshold s"
  shows "checkOverallStockLevel e s = s"
  using assms by (simp add: checkOverallStockLevel_def Let_def)

lemma stockChecks_sold_out:
  assumes "emptyNotificationSent x" and "almostEmptyNotificationSent x"
    and "0 \<le> almostEmptyThreshold x"
    and "\<forall>c\<in>set cs. countAvailableSlots (setSlots (snd c) x) = 0"
  shows "out (stockChecks cs x) = out x"
  using assms
proof (induction cs arbitrary: x)
  case Nil
  then show ?case by simp
next
  case (Cons c cs)
  obtain e k where c: "c = (e, k)" by (cases c)
  let ?x' = "setSlots k x"
  from Cons.prems have "checkOverallStockLevel e ?x' = ?x'"
    by (intro checkOverallStockLevel_sold_out) (simp_all add: c)
  moreover have "\<forall>d\<in>set cs. countAvailableSlots (setSlots (snd d) ?x') = 0"
  proof
    fix d assume "d \<in> set cs"
    with Cons.prems(4) have "countAvailableSlots (setSlots (snd d) x) = 0" by simp
    moreover
    have "countAvailableSlots (setSlots (snd d) ?x') = countAvailableSlots (setSlots (snd d) x)"
      by (rule countAvailableSlots_setSlots) simp
    ultimately show "countAvailableSlots (setSlots (snd d) ?x') = 0" by simp
  qed
  ultimately show ?case using Cons.IH [of ?x'] Cons.prems(1-3) by (simp add: c)
qed

lemma sendTelegramMessage_unsent:
  assumes "\<not> canSend e s"
  shows "filter isTelegram (out (sendTelegramMessage e m s)) = filter isTelegram (out s)"
  using assms by (auto simp add: canSend_def sendTelegramMessage_def Let_def logMessage_def emit_def)

lemma sendTelegramMessage_latches [simp]:
  "almostEmptyThreshold (sendTelegramMessage e m s) = almostEmptyThreshold s"
  "activeSlots (sendTelegramMessage e m s) = activeSlots s"
  by (simp_all add: sendTelegramMessage_def Let_def logMessage_def emit_def)

text \<open>
  C8, as stated, fails in two ways.
  \<^item> The latch is set whether or not the message goes out. Three slots are in stock,
    the threshold is 5 and the latch is clear, and the check runs while the WiFi link is
    down: \<open>sendTelegramMessage\<close> logs that it is offline and sends nothing, and
    \<open>checkOverallStockLevel\<close> sets the latch all the same. The link comes back and the
    stock goes on falling to 2 and to 1: no "almost empty" message is ever emitted.
  \<^item> The threshold is stored as entered, and for a negative one the count 0 is above
    it. With threshold -1 and nothing in stock, the first check sends the "empty" message
    and latches, the second finds \<open>0 > -1\<close> and clears both latches, and the third sends
    the "empty" message again, the count having been 0 all the time.
\<close>

theorem stock_notification_lost_or_repeated_counterexample:
  "telegramNotifyAlmostEmpty lowStock \<and> telegramNotifyEmpty lowStock
   \<and> almostEmptyThreshold lowStock = 5 \<and> countAvailableSlots lowStock = 3
   \<and> \<not> almostEmptyNotificationSent lowStock \<and> out lowStock = []
   \<and> out (checkOverallStockLevel (wifiDownEnv 1000) lowStock) = [Log LogTelegramOffline]
   \<and> almostEmptyNotificationSent (checkOverallStockLevel (wifiDownEnv 1000) lowStock)
   \<and> map (\<lambda>c. wifiConnected (fst c)) laterSales = [True, True]
   \<and> map (\<lambda>c. countAvailableSlots (setSlots (snd c) lowStock)) laterSales = [2, 1]
   \<and> filter isTelegram
        (out (stockChecks laterSales (checkOverallStockLevel (wifiDownEnv 1000) lowStock))) = []
   \<and> telegramNotifyEmpty negativeThreshold \<and> almostEmptyThreshold negativeThreshold = - 1
   \<and> \<not> emptyNotificationSent negativeThreshold \<and> out negativeThreshold = []
   \<and> map (\<lambda>c. countAvailableSlots (setSlots (snd c) negativeThreshold)) emptyThrice = [0, 0, 0]
   \<and> out (stockChecks emptyThrice negativeThreshold) =
        [Log (LogTelegramSending EmptyMessage), Telegram EmptyMessage, Log LogTelegramSent,
         Log LogStockHigh,
         Log (LogTelegramSending EmptyMessage), Telegram EmptyMessage, Log LogTelegramSent]"
  by code_simp

text \<open>
  C8, amended. Let the "almost empty" and "empty" notifications be enabled; let
  \<open>T = almostEmptyThreshold\<close>, and let the count be that of the slots available and not
  locked. A message is emitted when \<open>sendTelegramMessage\<close> can send (Telegram enabled,
  token and chat id set, not in offline mode, WiFi connected); the latches move
  whether or not it can.
  \<^item> A check that finds \<open>0 < count \<le> T\<close> with the "almost empty" latch clear sets that
    latch. If the message can be sent, the "almost empty" message is emitted, once;
    otherwise no message is emitted. However the slots change afterwards, and whatever
    the connection is then, the checks that follow emit no further "almost empty" message
    and leave the latch set as long as each of them finds \<open>count \<le> T\<close>.
  \<^item> A check that finds \<open>count > T\<close> clears both latches and emits nothing, provided
    that \<open>count > 0\<close> or the "empty" latch is set (which \<open>T \<ge> 0\<close> implies).
  \<^item> A check that finds \<open>count = 0\<close> with the "empty" latch clear sets both latches. If
    the message can be sent, the "empty" message is emitted, once; otherwise no message
    is emitted. For \<open>T \<ge> 0\<close> the checks that follow put out nothing as long as each of
    them finds \<open>count = 0\<close>.
\<close>

theorem stock_notification_hysteresis:
  "telegramNotifyAlmostEmpty s \<and> telegramNotifyEmpty s \<longrightarrow>
     (0 < countAvailableSlots s \<and> countAvailableSlots s \<le> almostEmptyThreshold s
        \<and> \<not> almostEmptyNotificationSent s \<longrightarrow>
        (let s1 = checkOverallStockLevel e s
         in almostEmptyNotificationSent s1
          \<and> (canSend e s \<longrightarrow>
               out s1 = out s @
                 [Log (LogTelegramSending (AlmostEmptyMessage (countAvailableSlots s))),
                  Telegram (AlmostEmptyMessage (countAvailableSlots s)),
                  Log (if botSendOk e then LogTelegramSent else LogTelegramFailed)])
          \<and> (\<not> canSend e s \<longrightarrow> filter isTelegram (out s1) = filter isTelegram (out s))
          \<and> (\<forall>cs. (\<forall>c\<in>set cs. countAvailableSlots (setSlots (snd c) s) \<le> almostEmptyThreshold s) \<longrightarrow>
                 filter isAlmostEmpty (out (stockChecks cs s1)) = filter isAlmostEmpty (out s1)
               \<and> almostEmptyNotificationSent (stockChecks cs s1))))
   \<and> (almostEmptyThreshold s < countAvailableSlots s
        \<and> (0 < countAvailableSlots s \<or> emptyNotificationSent s) \<longrightarrow>
        (let s1 = checkOverallStockLevel e s
         in \<not> almostEmptyNotificationSent s1 \<and> \<not> emptyNotificationSent s1
          \<and> filter isTelegram (out s1) = filter isTelegram (out s)))
   \<and> (countAvailableSlots s = 0 \<and> \<not> emptyNotificationSent s \<longrightarrow>
        (let s1 = checkOverallStockLevel e s
         in almostEmptyNotificationSent s1 \<and> emptyNotificationSent s1
          \<and> (canSend e s \<longrightarrow>
               out s1 = out s @
                 [Log (LogTelegramSending EmptyMessage), Telegram EmptyMessage,
                  Log (if botSendOk e then LogTelegramSent else LogTelegramFailed)])
          \<and> (\<not> canSend e s \<longrightarrow> filter isTelegram (out s1) = filter isTelegram (out s))
          \<and> (0 \<le> almostEmptyThreshold s \<longrightarrow>
               (\<forall>cs. (\<forall>c\<in>set cs. countAvailableSlots (setSlots (snd c) s) = 0) \<longrightarrow>
                   out (stockChecks cs s1) = out s1))))"
proof (intro impI conjI)
  assume n: "telegramNotifyAlmostEmpty s \<and> telegramNotifyEmpty s"
  assume a: "0 < countAvailableSlots s \<and> countAvailableSlots s \<le> almostEmptyThreshold s
        \<and> \<not> almostEmptyNotificationSent s"
  let ?s1 = "checkOverallStockLevel e s"
  let ?m = "AlmostEmptyMessage (countAvailableSlots s)"
  from n a have step: "?s1 = (sendTelegramMessage e ?m s)
      \<lparr>almostEmptyNotificationSent := True, emptyNotificationSent := False\<rparr>"
    by (simp add: checkOverallStockLevel_def Let_def)
  have latch: "almostEmptyNotificationSent ?s1" unfolding step by simp
  have sent: "out ?s1 = out s @
       [Log (LogTelegramSending ?m), Telegram ?m,
        Log (if botSendOk e then LogTelegramSent else LogTelegramFailed)]" if "canSend e s"
    unfolding step using that by (simp add: sendTelegramMessage_sent)
  have unsent: "filter isTelegram (out ?s1) = filter isTelegram (out s)" if "\<not> canSend e s"
    unfolding step using that by (simp add: sendTelegramMessage_unsent)
  have later: "filter isAlmostEmpty (out (stockChecks cs ?s1)) = filter isAlmostEmpty (out ?s1)
               \<and> almostEmptyNotificationSent (stockChecks cs ?s1)"
    if cs: "\<forall>c\<in>set cs. countAvailableSlots (setSlots (snd c) s) \<le> almostEmptyThreshold s" for cs
  proof (rule stockChecks_latched [OF latch])
    show "\<forall>c\<in>set cs. countAvailableSlots (setSlots (snd c) ?s1) \<le> almostEmptyThreshold ?s1"
    proof
      fix c assume "c \<in> set cs"
      with cs have "countAvailableSlots (setSlots (snd c) s) \<le> almostEmptyThreshold s" by simp
      moreover
      have "countAvailableSlots (setSlots (snd c) ?s1) = countAvailableSlots (setSlots (snd c) s)"
        by (rule countAvailableSlots_setSlots) simp
      ultimately show "countAvailableSlots (setSlots (snd c) ?s1) \<le> almostEmptyThreshold ?s1"
        by simp
    qed
  qed
  show "let s1 = checkOverallStockLevel e s
         in almostEmptyNotificationSent s1
          \<and> (canSend e s \<longrightarrow>
               out s1 = out s @
                 [Log (LogTelegramSending (AlmostEmptyMessage (countAvailableSlots s))),
                  Telegram (AlmostEmptyMessage (countAvailableSlots s)),
                  Log (if botSendOk e then LogTelegramSent else LogTelegramFailed)])
          \<and> (\<not> canSend e s \<longrightarrow> filter isTelegram (out s1) = filter isTelegram (out s))
          \<and> (\<forall>cs. (\<forall>c\<in>set cs. countAvailableSlots (setSlots (snd c) s) \<le> almostEmptyThreshold s) \<longrightarrow>
                 filter isAlmostEmpty (out (stockChecks cs s1)) = filter isAlmostEmpty (out s1)
               \<and> almostEmptyNotificationSent (stockChecks cs s1))"
    unfolding Let_def using latch sent unsent later by blast
next
  assume "telegramNotifyAlmostEmpty s \<and> telegramNotifyEmpty s"
    and "almostEmptyThreshold s < countAvailableSlots s
        \<and> (0 < countAvailableSlots s \<or> emptyNotificationSent s)"
  then show "let s1 = checkOverallStockLevel e s
         in \<not> almostEmptyNotificationSent s1 \<and> \<not> emptyNotificationSent s1
          \<and> filter isTelegram (out s1) = filter isTelegram (out s)"
    by (auto simp add: checkOverallStockLevel_def Let_def logMessage_def emit_def)
next
  assume n: "telegramNotifyAlmostEmpty s \<and> telegramNotifyEmpty s"
  assume a: "countAvailableSlots s = 0 \<and> \<not> emptyNotificationSent s"
  let ?s1 = "checkOverallStockLevel e s"
  from n a have step: "?s1 = (sendTelegramMessage e EmptyMessage s)
      \<lparr>emptyNotificationSent := True, almostEmptyNotificationSent := True\<rparr>"
    by (simp add: checkOverallStockLevel_def Let_def)
  have latch: "almostEmptyNotificationSent ?s1" "emptyNotificationSent ?s1"
    unfolding step by simp_all
  have sent: "out ?s1 = out s @
       [Log (LogTelegramSending EmptyMessage), Telegram EmptyMessage,
        Log (if botSendOk e then LogTelegramSent else LogTelegramFailed)]" if "canSend e s"
    unfolding step using that by (simp add: sendTelegramMessage_sent)
  have unsent: "filter isTelegram (out ?s1) = filter isTelegram (out s)" if "\<not> canSend e s"
    unfolding step using that by (simp add: sendTelegramMessage_unsent)
  have later: "out (stockChecks cs ?s1) = out ?s1"
    if t: "0 \<le> almostEmptyThreshold s"
      and cs: "\<forall>c\<in>set cs. countAvailableSlots (setSlots (snd c) s) = 0" for cs
  proof (rule stockChecks_sold_out [OF latch(2) latch(1)])
    show "0 \<le> almostEmptyThreshold ?s1" using t by simp
    show "\<forall>c\<in>set cs. countAvailableSlots (setSlots (snd c) ?s1) = 0"
    proof
      fix c assume "c \<in> set cs"
      with cs have "countAvailableSlots (setSlots (snd c) s) = 0" by simp
      moreover
      have "countAvailableSlots (setSlots (snd c) ?s1) = countAvailableSlots (setSlots (snd c) s)"
        by (rule countAvailableSlots_setSlots) simp
      ultimately show "countAvailableSlots (setSlots (snd c) ?s1) = 0" by simp
    qed
  qed
  show "let s1 = checkOverallStockLevel e s
         in almostEmptyNotificationSent s1 \<and> emptyNotificationSent s1
          \<and> (canSend e s \<longrightarrow>
               out s1 = out s @
                 [Log (LogTelegramSending EmptyMessage), Telegram EmptyMessage,
                  Log (if botSendOk e then LogTelegramSent else LogTelegramFailed)])
          \<and> (\<not> canSend e s \<longrightarrow> filter isTelegram (out s1) = filter isTelegram (out s))
          \<and> (0 \<le> almostEmptyThreshold s \<longrightarrow>
               (\<forall>cs. (\<forall>c\<in>set cs. countAvailableSlots (setSlots (snd c) s) = 0) \<longrightarrow>
                   out (stockChecks cs s1) = out s1))"
    unfolding Let_def using latch sent unsent later by blast
qed

lemma stock_facts:
  "telegramNotifyAlmostEmpty lowStock" "telegramNotifyEmpty lowStock"
  "almostEmptyThreshold lowStock = 5" "countAvailableSlots lowStock = 3"
  "\<not> almostEmptyNotificationSent lowStock"
  "map (\<lambda>c. countAvailableSlots (setSlots (snd c) lowStock)) laterSales = [2, 1]"
  "telegramNotifyAlmostEmpty fullStock" "telegramNotifyEmpty fullStock"
  "almostEmptyThreshold fullStock = 5" "countAvailableSlots fullStock = 16"
  "telegramNotifyAlmostEmpty soldOut" "telegramNotifyEmpty soldOut"
  "almostEmptyThreshold soldOut = 5" "countAvailableSlots soldOut = 0"
  "\<not> emptyNotificationSent soldOut"
  "map (\<lambda>c. countAvailableSlots (setSlots (snd c) soldOut)) stillSoldOut = [0, 0]"
  "out lowStock = []" "out soldOut = []"
  "canSend (calmEnv 1000) lowStock" "canSend (calmEnv 1000) fullStock"
  "canSend (calmEnv 1000) soldOut" "botSendOk (calmEnv 1000)"
  "\<not> canSend (wifiDownEnv 1000) lowStock" "\<not> canSend (wifiDownEnv 1000) soldOut"
  "filter isAlmostEmpty (out (checkOverallStockLevel (wifiDownEnv 1000) lowStock)) = []"
  by code_simp+

theorem stock_notification_hysteresis_witness:
  "telegramNotifyAlmostEmpty lowStock \<and> telegramNotifyEmpty lowStock
   \<and> 0 < countAvailableSlots lowStock \<and> countAvailableSlots lowStock \<le> almostEmptyThreshold lowStock
   \<and> \<not> almostEmptyNotificationSent lowStock
   \<and> canSend (calmEnv 1000) lowStock
   \<and> out (checkOverallStockLevel (calmEnv 1000) lowStock) =
        [Log (LogTelegramSending (AlmostEmptyMessage 3)), Telegram (AlmostEmptyMessage 3),
         Log LogTelegramSent]
   \<and> map (\<lambda>c. countAvailableSlots (setSlots (snd c) lowStock)) laterSales = [2, 1]
   \<and> filter isAlmostEmpty (out (stockChecks laterSales (checkOverallStockLevel (calmEnv 1000) lowStock)))
        = [Telegram (AlmostEmptyMessage 3)]
   \<and> \<not> canSend (wifiDownEnv 1000) lowStock
   \<and> almostEmptyNotificationSent (checkOverallStockLevel (wifiDownEnv 1000) lowStock)
   \<and> filter isTelegram (out (checkOverallStockLevel (wifiDownEnv 1000) lowStock)) = []
   \<and> filter isAlmostEmpty
        (out (stockChecks laterSales (checkOverallStockLevel (wifiDownEnv 1000) lowStock))) = []
   \<and> almostEmptyThreshold fullStock < countAvailableSlots fullStock
   \<and> 0 < countAvailableSlots fullStock
   \<and> \<not> almostEmptyNotificationSent (checkOverallStockLevel (calmEnv 1000) fullStock)
   \<and> \<not> emptyNotificationSent (checkOverallStockLevel (calmEnv 1000) fullStock)
   \<and> countAvailableSlots soldOut = 0 \<and> \<not> emptyNotificationSent soldOut
   \<and> 0 \<le> almostEmptyThreshold soldOut
   \<and> out (checkOverallStockLevel (calmEnv 1000) soldOut) =
        [Log (LogTelegramSending EmptyMessage), Telegram EmptyMessage, Log LogTelegramSent]
   \<and> map (\<lambda>c. countAvailableSlots (setSlots (snd c) soldOut)) stillSoldOut = [0, 0]
   \<and> out (stockChecks stillSoldOut (checkOverallStockLevel (calmEnv 1000) soldOut)) =
        [Log (LogTelegramSending EmptyMessage), Telegram EmptyMessage, Log LogTelegramSent]
   \<and> emptyNotificationSent (checkOverallStockLevel (wifiDownEnv 1000) soldOut)
   \<and> filter isTelegram (out (checkOverallStockLevel (wifiDownEnv 1000) soldOut)) = []"
proof -
  have low: "\<forall>c\<in>set laterSales.
      countAvailableSlots (setSlots (snd c) lowStock) \<le> almostEmptyThreshold lowStock"
  proof
    fix c assume "c \<in> set laterSales"
    then have "countAvailableSlots (setSlots (snd c) lowStock)
        \<in> set (map (\<lambda>c. countAvailableSlots (setSlots (snd c) lowStock)) laterSales)" by simp
    then show "countAvailableSlots (setSlots (snd c) lowStock) \<le> almostEmptyThreshold lowStock"
      unfolding stock_facts(6) by (auto simp add: stock_facts(3))
  qed
  have none: "\<forall>c\<in>set stillSoldOut. countAvailableSlots (setSlots (snd c) soldOut) = 0"
  proof
    fix c assume "c \<in> set stillSoldOut"
    then have "countAvailableSlots (setSlots (snd c) soldOut)
        \<in> set (map (\<lambda>c. countAvailableSlots (setSlots (snd c) soldOut)) stillSoldOut)" by simp
    then show "countAvailableSlots (setSlots (snd c) soldOut) = 0"
      unfolding stock_facts(16) by simp
  qed
  show ?thesis
    using stock_notification_hysteresis [of lowStock "calmEnv 1000"]
      stock_notification_hysteresis [of lowStock "wifiDownEnv 1000"]
      stock_notification_hysteresis [of fullStock "calmEnv 1000"]
      stock_notification_hysteresis [of soldOut "calmEnv 1000"]
      stock_notification_hysteresis [of soldOut "wifiDownEnv 1000"] stock_facts low none
    by (simp add: Let_def)
qed

subsection \<open>Keypad debounce\<close>

text \<open>
  C7, as stated, fails. Key 2 is held down through six scans (its column reads HIGH in
  each of them) and no scan senses a release. While key 1 is down as well, the scan
  stops at key 1, which comes first in scan order; key 1 is reported, and when it is let
  go key 2 is sensed anew and reported a second time: two reports of key 2 in one
  continuous press, and two new events without a release before them.
\<close>

theorem held_key_reported_twice_counterexample:
  "columnLevels 0 1 rollover = [True, True, True, True, True, True]
   \<and> sensedKeys rollover = ''221122''
   \<and> fst (keyScans rollover initialMachine)
       = [NOKEY, CHR ''2'', NOKEY, CHR ''1'', NOKEY, CHR ''2'']"
  by code_simp

text \<open>After every scan, \<open>lastPhysicallyPressedKey\<close> is the key that scan sensed.\<close>

lemma manualGetKeyState_tracks:
  "lastPhysicallyPressedKey (snd (manualGetKeyState pins t s)) = scanKeypad pins"
  by (simp add: manualGetKeyState_def Let_def)

lemma manualGetKeyState_emits:
  assumes "manualGetKeyState pins t s = (k, s1)" and "k \<noteq> NOKEY"
  shows "scanKeypad pins = k" and "lastPhysicallyPressedKey s = k"
    and "KEYPAD_DEBOUNCE_PERIOD < t - lastKeyPressTime s" and "lastReturnedKey s \<noteq> k"
    and "s1 = s\<lparr>lastReturnedKey := k\<rparr>"
  using assms by (auto simp add: manualGetKeyState_def Let_def split: if_splits)

lemma manualGetKeyState_latched:
  assumes "lastReturnedKey s = k" and "scanKeypad pins \<noteq> NOKEY"
    and "fst (manualGetKeyState pins t s) = NOKEY \<or> fst (manualGetKeyState pins t s) = k"
  shows "fst (manualGetKeyState pins t s) = NOKEY"
    and "lastReturnedKey (snd (manualGetKeyState pins t s)) = k"
  using assms by (auto simp add: manualGetKeyState_def Let_def split: if_splits)

lemma keyScans_latched:
  assumes "lastReturnedKey s = k"
    and "\<forall>p\<in>set ps. scanKeypad (fst p) \<noteq> NOKEY"
    and "\<forall>x\<in>set (fst (keyScans ps s)). x = NOKEY \<or> x = k"
  shows "\<forall>x\<in>set (fst (keyScans ps s)). x = NOKEY"
  using assms
proof (induction ps arbitrary: s)
  case Nil
  then show ?case by simp
next
  case (Cons p ps)
  obtain pins t where p: "p = (pins, t)" by (cases p)
  let ?r = "manualGetKeyState pins t s"
  have unfold: "fst (keyScans (p # ps) s) = fst ?r # fst (keyScans ps (snd ?r))"
    by (simp add: p split_beta)
  from Cons.prems(3) have here: "fst ?r = NOKEY \<or> fst ?r = k"
    and rest: "\<forall>x\<in>set (fst (keyScans ps (snd ?r))). x = NOKEY \<or> x = k"
    unfolding unfold by simp_all
  from Cons.prems(2) have sensed: "scanKeypad pins \<noteq> NOKEY" by (simp add: p)
  from manualGetKeyState_latched [OF Cons.prems(1) sensed here]
  have now: "fst ?r = NOKEY" and latch: "lastReturnedKey (snd ?r) = k" by simp_all
  from Cons.prems(2) have "\<forall>p\<in>set ps. scanKeypad (fst p) \<noteq> NOKEY" by simp
  from Cons.IH [OF latch this rest] now show ?case unfolding unfold by simp
qed

lemma keyScans_sensed:
  "\<forall>x\<in>set (fst (keyScans ps s)). x = NOKEY \<or> x \<in> set (sensedKeys ps)"
proof (induction ps arbitrary: s)
  case Nil
  then show ?case by simp
next
  case (Cons p ps)
  obtain pins t where p: "p = (pins, t)" by (cases p)
  let ?r = "manualGetKeyState pins t s"
  have unfold: "fst (keyScans (p # ps) s) = fst ?r # fst (keyScans ps (snd ?r))"
    by (simp add: p split_beta)
  have "fst ?r = NOKEY \<or> fst ?r = scanKeypad pins"
    by (simp add: manualGetKeyState_def Let_def)
  with Cons.IH [of "snd ?r"] show ?case
    unfolding unfold by (auto simp add: sensedKeys_def p)
qed

lemma keyScans_hold:
  assumes "lastReturnedKey s = k" and "k \<noteq> NOKEY"
    and "\<forall>p\<in>set ps. scanKeypad (fst p) = k"
  shows "\<forall>x\<in>set (fst (keyScans ps s)). x = NOKEY"
proof (rule keyScans_latched [OF assms(1)])
  from assms(2,3) show "\<forall>p\<in>set ps. scanKeypad (fst p) \<noteq> NOKEY" by simp
  from assms(3) have "set (sensedKeys ps) \<subseteq> {k}" by (auto simp add: sensedKeys_def)
  with keyScans_sensed [of ps s] show "\<forall>x\<in>set (fst (keyScans ps s)). x = NOKEY \<or> x = k"
    by blast
qed

lemma keyScans_release_and_press:
  assumes "lastPhysicallyPressedKey s = k" and "k \<noteq> NOKEY"
    and "scanKeypad p0 = NOKEY" and "scanKeypad p' = k" and "KEYPAD_DEBOUNCE_PERIOD < t2 - t1"
  shows "fst (keyScans [(p0, t0), (p', t1), (p', t2)] s) = [NOKEY, NOKEY, k]"
  using assms by (simp add: manualGetKeyState_def Let_def)

lemma keyScans_other_key:
  assumes "lastPhysicallyPressedKey s = k" and "lastReturnedKey s = k"
    and "scanKeypad p' = k'" and "k' \<noteq> NOKEY" and "k' \<noteq> k"
    and "KEYPAD_DEBOUNCE_PERIOD < t2 - t1"
  shows "fst (keyScans [(p', t1), (p', t2)] s) = [NOKEY, k']"
  using assms by (simp add: manualGetKeyState_def Let_def)

text \<open>
  C7, amended. The resolver knows the key the scan senses, not the keys that are down.
  When \<open>manualGetKeyState\<close> reports a key \<open>k\<close>, the scan senses \<open>k\<close>, the scan before
  sensed \<open>k\<close> too (it is \<open>lastPhysicallyPressedKey\<close>), more than
  \<open>KEYPAD_DEBOUNCE_PERIOD\<close> has passed since \<open>lastKeyPressTime\<close>, the reading at which
  the sensed key last changed, and \<open>k\<close> is not the key reported last. From then on:
  \<^item> as long as every scan senses \<open>k\<close>, no key is reported, however many scans follow
    and whatever their clock readings;
  \<^item> more generally \<open>k\<close> is not reported again before a scan senses no key or another
    key is reported;
  \<^item> after a scan that senses no key, \<open>k\<close> sensed in two scans more than the debounce
    period apart is reported again;
  \<^item> a different key sensed in two scans more than the debounce period apart is
    reported without any release in between.
\<close>

theorem key_reported_once_per_sensed_press:
  "manualGetKeyState pins t s = (k, s1) \<and> k \<noteq> NOKEY \<longrightarrow>
     (scanKeypad pins = k \<and> lastPhysicallyPressedKey s = k
        \<and> KEYPAD_DEBOUNCE_PERIOD < t - lastKeyPressTime s \<and> lastReturnedKey s \<noteq> k)
   \<and> (\<forall>ps. (\<forall>p\<in>set ps. scanKeypad (fst p) = k) \<longrightarrow>
          (\<forall>x\<in>set (fst (keyScans ps s1)). x = NOKEY))
   \<and> (\<forall>ps. (\<forall>p\<in>set ps. scanKeypad (fst p) \<noteq> NOKEY)
            \<and> (\<forall>x\<in>set (fst (keyScans ps s1)). x = NOKEY \<or> x = k) \<longrightarrow>
          (\<forall>x\<in>set (fst (keyScans ps s1)). x = NOKEY))
   \<and> (\<forall>p0 t0 p' t1 t2.
          scanKeypad p0 = NOKEY \<and> scanKeypad p' = k \<and> KEYPAD_DEBOUNCE_PERIOD < t2 - t1 \<longrightarrow>
          fst (keyScans [(p0, t0), (p', t1), (p', t2)] s1) = [NOKEY, NOKEY, k])
   \<and> (\<forall>p' k' t1 t2.
          scanKeypad p' = k' \<and> k' \<noteq> NOKEY \<and> k' \<noteq> k \<and> KEYPAD_DEBOUNCE_PERIOD < t2 - t1 \<longrightarrow>
          fst (keyScans [(p', t1), (p', t2)] s1) = [NOKEY, k'])"
proof (intro impI)
  assume a: "manualGetKeyState pins t s = (k, s1) \<and> k \<noteq> NOKEY"
  then have r: "manualGetKeyState pins t s = (k, s1)" and k: "k \<noteq> NOKEY" by simp_all
  note e = manualGetKeyState_emits [OF r k]
  from e(2,5) have s1: "lastReturnedKey s1 = k" "lastPhysicallyPressedKey s1 = k" by simp_all
  show "(scanKeypad pins = k \<and> lastPhysicallyPressedKey s = k
        \<and> KEYPAD_DEBOUNCE_PERIOD < t - lastKeyPressTime s \<and> lastReturnedKey s \<noteq> k)
   \<and> (\<forall>ps. (\<forall>p\<in>set ps. scanKeypad (fst p) = k) \<longrightarrow>
          (\<forall>x\<in>set (fst (keyScans ps s1)). x = NOKEY))
   \<and> (\<forall>ps. (\<forall>p\<in>set ps. scanKeypad (fst p) \<noteq> NOKEY)
            \<and> (\<forall>x\<in>set (fst (keyScans ps s1)). x = NOKEY \<or> x = k) \<longrightarrow>
          (\<forall>x\<in>set (fst (keyScans ps s1)). x = NOKEY))
   \<and> (\<forall>p0 t0 p' t1 t2.
          scanKeypad p0 = NOKEY \<and> scanKeypad p' = k \<and> KEYPAD_DEBOUNCE_PERIOD < t2 - t1 \<longrightarrow>
          fst (keyScans [(p0, t0), (p', t1), (p', t2)] s1) = [NOKEY, NOKEY, k])
   \<and> (\<forall>p' k' t1 t2.
          scanKeypad p' = k' \<and> k' \<noteq> NOKEY \<and> k' \<noteq> k \<and> KEYPAD_DEBOUNCE_PERIOD < t2 - t1 \<longrightarrow>
          fst (keyScans [(p', t1), (p', t2)] s1) = [NOKEY, k'])"
  proof (intro conjI allI impI)
    show "scanKeypad pins = k" "lastPhysicallyPressedKey s = k"
      "KEYPAD_DEBOUNCE_PERIOD < t - lastKeyPressTime s" "lastReturnedKey s \<noteq> k"
      by (rule e)+
  next
    fix ps :: "((nat \<Rightarrow> nat \<Rightarrow> bool) \<times> millis) list"
    assume "\<forall>p\<in>set ps. scanKeypad (fst p) = k"
    from keyScans_hold [OF s1(1) k this] show "\<forall>x\<in>set (fst (keyScans ps s1)). x = NOKEY" .
  next
    fix ps
    assume "(\<forall>p\<in>set ps. scanKeypad (fst p) \<noteq> NOKEY)
            \<and> (\<forall>x\<in>set (fst (keyScans ps s1)). x = NOKEY \<or> x = k)"
    then show "\<forall>x\<in>set (fst (keyScans ps s1)). x = NOKEY"
      using keyScans_latched [OF s1(1), of ps] by blast
  next
    fix p0 t0 p' t1 t2
    assume "scanKeypad p0 = NOKEY \<and> scanKeypad p' = k \<and> KEYPAD_DEBOUNCE_PERIOD < t2 - t1"
    then show "fst (keyScans [(p0, t0), (p', t1), (p', t2)] s1) = [NOKEY, NOKEY, k]"
      using keyScans_release_and_press [OF s1(2) k] by blast
  next
    fix p' k' t1 t2
    assume "scanKeypad p' = k' \<and> k' \<noteq> NOKEY \<and> k' \<noteq> k \<and> KEYPAD_DEBOUNCE_PERIOD < t2 - t1"
    then show "fst (keyScans [(p', t1), (p', t2)] s1) = [NOKEY, k']"
      using keyScans_other_key [OF s1(2) s1(1)] by blast
  qed
qed

lemma two_facts:
  "fst (manualGetKeyState (keyDown 0 1) 1100 twoSensed) = CHR ''2''"
  "CHR ''2'' \<noteq> NOKEY"
  "sensedKeys longHold = ''22222''"
  "scanKeypad noKeyDown = NOKEY" "scanKeypad (keyDown 0 1) = CHR ''2''"
  "scanKeypad (keyDown 1 1) = CHR ''5''" "CHR ''5'' \<noteq> NOKEY"
  "KEYPAD_DEBOUNCE_PERIOD < 2200 - 2100"
  by code_simp+

theorem key_reported_once_per_sensed_press_witness:
  "manualGetKeyState (keyDown 0 1) 1100 twoSensed = (CHR ''2'', twoReported)
   \<and> CHR ''2'' \<noteq> NOKEY
   \<and> sensedKeys longHold = ''22222''
   \<and> set (fst (keyScans longHold twoReported)) \<subseteq> {NOKEY}
   \<and> scanKeypad noKeyDown = NOKEY \<and> scanKeypad (keyDown 0 1) = CHR ''2''
   \<and> KEYPAD_DEBOUNCE_PERIOD < 2200 - 2100
   \<and> fst (keyScans [(noKeyDown, 2000), (keyDown 0 1, 2100), (keyDown 0 1, 2200)] twoReported)
       = [NOKEY, NOKEY, CHR ''2'']
   \<and> scanKeypad (keyDown 1 1) = CHR ''5'' \<and> CHR ''5'' \<noteq> NOKEY \<and> CHR ''5'' \<noteq> CHR ''2''
   \<and> fst (keyScans [(keyDown 1 1, 2100), (keyDown 1 1, 2200)] twoReported) = [NOKEY, CHR ''5'']"
proof -
  have r: "manualGetKeyState (keyDown 0 1) 1100 twoSensed = (CHR ''2'', twoReported)"
    using two_facts(1) by (simp add: twoReported_def prod_eq_iff)
  have held: "\<forall>p\<in>set longHold. scanKeypad (fst p) = CHR ''2''"
  proof
    fix p assume "p \<in> set longHold"
    then have "scanKeypad (fst p) \<in> set (sensedKeys longHold)" by (simp add: sensedKeys_def)
    then show "scanKeypad (fst p) = CHR ''2''" unfolding two_facts(3) by simp
  qed
  note t = key_reported_once_per_sensed_press
    [of "keyDown 0 1" 1100 twoSensed "CHR ''2''" twoReported, rule_format, OF conjI, OF r two_facts(2)]
  from t have hold: "set (fst (keyScans longHold twoReported)) \<subseteq> {NOKEY}"
    using held by blast
  from t have again:
    "fst (keyScans [(noKeyDown, 2000), (keyDown 0 1, 2100), (keyDown 0 1, 2200)] twoReported)
       = [NOKEY, NOKEY, CHR ''2'']"
    using two_facts(4,5,8) by blast
  from t have other:
    "fst (keyScans [(keyDown 1 1, 2100), (keyDown 1 1, 2200)] twoReported) = [NOKEY, CHR ''5'']"
    using two_facts(6,7,8) by blast
  show ?thesis using r hold again other two_facts by simp
qed

subsection \<open>Coin pulse grouping\<close>

text \<open>A run of events none of which is interrupted.\<close>

lemma wholeRun_simps [simp]:
  "wholeRun [] s = s"
  "wholeRun (CoinPulse t # es) s = wholeRun es (coinAcceptorISR (millisAt t) s)"
  "wholeRun (LoopTick t # es) s = wholeRun es (processAcceptedCoin (millisAt t) s)"
  by (simp_all add: wholeRun_def)

lemma processAcceptedCoin_guard_drain:
  "processAcceptedCoin t s =
     (if coinPulseCount s > 0 \<and> t - lastCoinPulseTime s > COIN_PROCESSING_DELAY s
      then coinDrain t s else s)"
  by (simp add: processAcceptedCoin_def coinDrain_def Let_def)

lemma processAcceptedCoinRaced_uninterrupted:
  "processAcceptedCoinRaced ord t [] [] [] s = processAcceptedCoin (millisAt t) s"
  by (cases ord) (simp_all add: processAcceptedCoinRaced_def processAcceptedCoin_guard_drain)

lemma millis_elapsed:
  assumes "p \<le> t" and "t - p < 2 ^ 32"
  shows "unat (millisAt t - millisAt p) = t - p"
proof -
  have "millisAt t - millisAt p = (word_of_nat (t - p) :: 32 word)"
    using assms(1) by (simp add: millisAt_def of_nat_diff)
  then show ?thesis using assms(2) by (simp add: unat_of_nat)
qed

lemma processAcceptedCoin_idle:
  "coinPulseCount s \<le> 0 \<Longrightarrow> processAcceptedCoin t s = s"
  by (simp add: processAcceptedCoin_def)

lemma processAcceptedCoin_early:
  assumes "lastCoinPulseTime s = millisAt p" and "p \<le> t"
    and "t - p \<le> unat (COIN_PROCESSING_DELAY s)"
  shows "processAcceptedCoin (millisAt t) s = s"
proof -
  have "unat (COIN_PROCESSING_DELAY s) < 2 ^ 32" using unsigned_less [of "COIN_PROCESSING_DELAY s"] by simp
  with assms have "unat (millisAt t - millisAt p) = t - p" by (intro millis_elapsed) simp_all
  with assms(3) have "\<not> COIN_PROCESSING_DELAY s < millisAt t - millisAt p"
    by (simp add: word_less_nat_alt)
  then show ?thesis by (simp add: processAcceptedCoin_def assms(1))
qed

lemma wholeRun_ticks_idle:
  assumes "coinPulseCount s \<le> 0" and "pulseTimes es = []"
  shows "wholeRun es s = s"
  using assms
proof (induction es arbitrary: s)
  case Nil
  then show ?case by simp
next
  case (Cons e es)
  then show ?case by (cases e) (simp_all add: processAcceptedCoin_idle)
qed

lemma processAcceptedCoin_late:
  assumes "lastCoinPulseTime s = millisAt p" and "p + unat (COIN_PROCESSING_DELAY s) < t"
    and "t < p + 2 ^ 32"
  shows "COIN_PROCESSING_DELAY s < millisAt t - lastCoinPulseTime s"
    and "coinPulseCount (processAcceptedCoin (millisAt t) s) \<le> 0"
proof -
  from assms(2,3) have "unat (millisAt t - millisAt p) = t - p" by (intro millis_elapsed) simp_all
  with assms(2) show late: "COIN_PROCESSING_DELAY s < millisAt t - lastCoinPulseTime s"
    by (simp add: word_less_nat_alt assms(1))
  then show "coinPulseCount (processAcceptedCoin (millisAt t) s) \<le> 0"
    by (simp add: processAcceptedCoin_def Let_def logMessage_def emit_def)
qed

lemma pulseTimes_subset: "set (pulseTimes es) \<subseteq> set (map eventTime es)"
proof (induction es)
  case Nil
  then show ?case by simp
next
  case (Cons e es)
  then show ?case by (cases e) auto
qed

lemma tickTimes_subset: "set (tickTimes es) \<subseteq> set (map eventTime es)"
proof (induction es)
  case Nil
  then show ?case by simp
next
  case (Cons e es)
  then show ?case by (cases e) auto
qed

lemma last_pulse_ge:
  assumes "sorted (p # map eventTime es)"
  shows "p \<le> last (p # pulseTimes es)"
proof (cases "pulseTimes es = []")
  case True
  then show ?thesis by simp
next
  case False
  then have l: "last (p # pulseTimes es) = last (pulseTimes es)"
    and "last (pulseTimes es) \<in> set (pulseTimes es)" by simp_all
  with pulseTimes_subset have "last (pulseTimes es) \<in> set (map eventTime es)" by blast
  moreover from assms have "\<forall>x\<in>set (map eventTime es). p \<le> x" by simp
  ultimately show ?thesis unfolding l by blast
qed

text \<open>
  Inside a group: a pulse at time \<open>p\<close> has been counted. The events that follow drain
  the counter once, at a tick later than the configured delay after the last pulse.
\<close>

lemma wholeRun_group:
  assumes "lastCoinPulseTime s = millisAt p"
    and "sorted (p # map eventTime es)"
    and "gapsWithin (unat (COIN_PROCESSING_DELAY s)) (p # pulseTimes es)"
    and "\<exists>t\<in>set (tickTimes es). last (p # pulseTimes es) + unat (COIN_PROCESSING_DELAY s) < t"
    and "\<forall>e\<in>set es. eventTime e < p + 2 ^ 32"
  shows "\<exists>t. last (p # pulseTimes es) + unat (COIN_PROCESSING_DELAY s) < t
            \<and> t < last (p # pulseTimes es) + 2 ^ 32
            \<and> wholeRun es s =
                processAcceptedCoin (millisAt t)
                  (s\<lparr>coinPulseCount := coinPulseCount s + int (length (pulseTimes es)),
                     lastCoinPulseTime := millisAt (last (p # pulseTimes es))\<rparr>)"
  using assms
proof (induction es arbitrary: s p)
  case Nil
  then show ?case by simp
next
  case (Cons e es)
  let ?d = "unat (COIN_PROCESSING_DELAY s)"
  show ?case
  proof (cases e)
    case (CoinPulse q)
    let ?s1 = "coinAcceptorISR (millisAt q) s"
    have s1: "lastCoinPulseTime ?s1 = millisAt q" "COIN_PROCESSING_DELAY ?s1 = COIN_PROCESSING_DELAY s"
      "coinPulseCount ?s1 = coinPulseCount s + 1"
      by (simp_all add: coinAcceptorISR_def)
    from Cons.prems(2) CoinPulse have pq: "p \<le> q" and srt: "sorted (q # map eventTime es)" by simp_all
    from Cons.prems(3) CoinPulse have gaps: "gapsWithin (unat (COIN_PROCESSING_DELAY ?s1)) (q # pulseTimes es)"
      by (simp add: s1)
    from Cons.prems(4) CoinPulse
    have tick: "\<exists>t\<in>set (tickTimes es). last (q # pulseTimes es) + unat (COIN_PROCESSING_DELAY ?s1) < t"
      by (simp add: s1)
    from Cons.prems(5) pq have bound: "\<forall>e\<in>set es. eventTime e < q + 2 ^ 32" by fastforce
    from Cons.IH [OF s1(1) srt gaps tick bound] obtain t
      where t: "last (q # pulseTimes es) + ?d < t" "t < last (q # pulseTimes es) + 2 ^ 32"
        and run: "wholeRun es ?s1 = processAcceptedCoin (millisAt t)
                  (?s1\<lparr>coinPulseCount := coinPulseCount ?s1 + int (length (pulseTimes es)),
                     lastCoinPulseTime := millisAt (last (q # pulseTimes es))\<rparr>)"
      unfolding s1 by blast
    have same: "?s1\<lparr>coinPulseCount := coinPulseCount ?s1 + int (length (pulseTimes es)),
                     lastCoinPulseTime := millisAt (last (q # pulseTimes es))\<rparr>
       = s\<lparr>coinPulseCount := coinPulseCount s + int (length (pulseTimes (e # es))),
           lastCoinPulseTime := millisAt (last (p # pulseTimes (e # es)))\<rparr>"
      by (simp add: coinAcceptorISR_def CoinPulse)
    from t run show ?thesis unfolding same by (auto simp add: CoinPulse)
  next
    case (LoopTick q)
    from Cons.prems(2) LoopTick have pq: "p \<le> q" and srt: "sorted (p # map eventTime es)"
      and later: "\<forall>x\<in>set (map eventTime es). q \<le> x" by auto
    from Cons.prems(3) LoopTick have gaps: "gapsWithin ?d (p # pulseTimes es)" by simp
    from Cons.prems(5) have bound: "\<forall>e\<in>set es. eventTime e < p + 2 ^ 32" by simp
    from Cons.prems(5) LoopTick have qb: "q < p + 2 ^ 32" by simp
    show ?thesis
    proof (cases "q - p \<le> ?d")
      case True
      with Cons.prems(1) pq have idle: "processAcceptedCoin (millisAt q) s = s"
        by (intro processAcceptedCoin_early) simp_all
      from last_pulse_ge [OF srt] True have "q \<le> last (p # pulseTimes es) + ?d" by simp
      with Cons.prems(4) LoopTick
      have tick: "\<exists>t\<in>set (tickTimes es). last (p # pulseTimes es) + ?d < t"
        by auto
      from Cons.IH [OF Cons.prems(1) srt gaps tick bound] idle show ?thesis
        by (simp add: LoopTick)
    next
      case False
      then have gap: "p + ?d < q" by simp
      have nop: "pulseTimes es = []"
      proof (rule ccontr)
        assume "pulseTimes es \<noteq> []"
        then obtain p1 ps where ps: "pulseTimes es = p1 # ps" by (cases "pulseTimes es") auto
        with gaps have "p1 - p \<le> ?d" by simp
        moreover from ps pulseTimes_subset [of es] have "p1 \<in> set (map eventTime es)" by auto
        with later have "q \<le> p1" by blast
        ultimately show False using False by simp
      qed
      from processAcceptedCoin_late(2) [OF Cons.prems(1) gap qb]
      have "wholeRun es (processAcceptedCoin (millisAt q) s) = processAcceptedCoin (millisAt q) s"
        by (rule wholeRun_ticks_idle) (rule nop)
      moreover have "s\<lparr>coinPulseCount := coinPulseCount s + int (length (pulseTimes (e # es))),
           lastCoinPulseTime := millisAt (last (p # pulseTimes (e # es)))\<rparr> = s"
        using Cons.prems(1) by (simp add: LoopTick nop)
      ultimately show ?thesis using gap qb nop by (auto simp add: LoopTick)
    qed
  qed
qed

lemma wholeRun_from_idle:
  assumes "coinPulseCount s = 0"
    and "sorted (map eventTime es)"
    and "pulseTimes es \<noteq> []"
    and "gapsWithin (unat (COIN_PROCESSING_DELAY s)) (pulseTimes es)"
    and "\<exists>t\<in>set (tickTimes es). last (pulseTimes es) + unat (COIN_PROCESSING_DELAY s) < t"
    and "\<forall>e\<in>set es. eventTime e < hd (pulseTimes es) + 2 ^ 32"
  shows "\<exists>t. last (pulseTimes es) + unat (COIN_PROCESSING_DELAY s) < t
            \<and> t < last (pulseTimes es) + 2 ^ 32
            \<and> wholeRun es s =
                processAcceptedCoin (millisAt t)
                  (s\<lparr>coinPulseCount := int (length (pulseTimes es)),
                     lastCoinPulseTime := millisAt (last (pulseTimes es))\<rparr>)"
  using assms
proof (induction es arbitrary: s)
  case Nil
  then show ?case by simp
next
  case (Cons e es)
  let ?d = "unat (COIN_PROCESSING_DELAY s)"
  show ?case
  proof (cases e)
    case (LoopTick q)
    from Cons.prems(1) have idle: "processAcceptedCoin (millisAt q) s = s"
      by (simp add: processAcceptedCoin_idle)
    from Cons.prems(2) LoopTick have srt: "sorted (map eventTime es)"
      and later: "\<forall>x\<in>set (map eventTime es). q \<le> x" by auto
    from Cons.prems(3) LoopTick have ps: "pulseTimes es \<noteq> []" by simp
    then have "last (pulseTimes es) \<in> set (pulseTimes es)" by simp
    with pulseTimes_subset [of es] later have "q \<le> last (pulseTimes es)" by blast
    with Cons.prems(5) LoopTick
    have tick: "\<exists>t\<in>set (tickTimes es). last (pulseTimes es) + ?d < t" by auto
    from Cons.prems(4,6) LoopTick have rest: "gapsWithin ?d (pulseTimes es)"
      "\<forall>e\<in>set es. eventTime e < hd (pulseTimes es) + 2 ^ 32" by simp_all
    from Cons.IH [OF Cons.prems(1) srt ps rest(1) tick rest(2)] idle show ?thesis
      by (simp add: LoopTick)
  next
    case (CoinPulse q)
    let ?s1 = "coinAcceptorISR (millisAt q) s"
    have s1: "lastCoinPulseTime ?s1 = millisAt q" "COIN_PROCESSING_DELAY ?s1 = COIN_PROCESSING_DELAY s"
      by (simp_all add: coinAcceptorISR_def)
    from Cons.prems(2) CoinPulse have srt: "sorted (q # map eventTime es)" by simp
    from Cons.prems(4) CoinPulse
    have gaps: "gapsWithin (unat (COIN_PROCESSING_DELAY ?s1)) (q # pulseTimes es)" by (simp add: s1)
    from Cons.prems(5) CoinPulse
    have tick: "\<exists>t\<in>set (tickTimes es). last (q # pulseTimes es) + unat (COIN_PROCESSING_DELAY ?s1) < t"
      by (simp add: s1)
    from Cons.prems(6) CoinPulse have bound: "\<forall>e\<in>set es. eventTime e < q + 2 ^ 32" by simp
    from wholeRun_group [OF s1(1) srt gaps tick bound] obtain t
      where t: "last (q # pulseTimes es) + ?d < t" "t < last (q # pulseTimes es) + 2 ^ 32"
        and run: "wholeRun es ?s1 = processAcceptedCoin (millisAt t)
                  (?s1\<lparr>coinPulseCount := coinPulseCount ?s1 + int (length (pulseTimes es)),
                     lastCoinPulseTime := millisAt (last (q # pulseTimes es))\<rparr>)"
      unfolding s1 by blast
    have same: "?s1\<lparr>coinPulseCount := coinPulseCount ?s1 + int (length (pulseTimes es)),
                     lastCoinPulseTime := millisAt (last (q # pulseTimes es))\<rparr>
       = s\<lparr>coinPulseCount := int (length (pulseTimes (e # es))),
           lastCoinPulseTime := millisAt (last (pulseTimes (e # es)))\<rparr>"
      using Cons.prems(1) by (simp add: coinAcceptorISR_def CoinPulse)
    from t run show ?thesis unfolding same by (auto simp add: CoinPulse)
  qed
qed

text \<open>
  When no pulse lands inside a call of \<open>processAcceptedCoin\<close>, a group is drained as
  one. The pulse counter is at zero. \<open>N \<ge> 1\<close> coin pulses arrive, each at most
  \<open>COIN_PROCESSING_DELAY\<close> milliseconds after the one before it, and the loop ticks at
  any times before, between and after them; at least one tick comes later than
  \<open>COIN_PROCESSING_DELAY\<close> after the last pulse. Then the counter is drained exactly
  once, with all \<open>N\<close> pulses, and is zero at the end. If \<open>N\<close> is in 1..6 and
  \<open>pulseValues[N] > 0\<close>, Credit has grown once, by \<open>pulseValues[N] / 100\<close>; otherwise
  the pulses are logged as worthless or rejected and Credit is as before. The statement
  is for \<open>N < 2 ^ 31\<close>, the range of the C++ counter, and for events less than
  \<open>2 ^ 32\<close> ms after the first pulse, one turn of the \<open>millis()\<close> counter.
\<close>

lemma coin_group_uninterrupted:
  assumes "coinPulseCount s = 0"
    and "sorted (map eventTime es)"
    and "pulseTimes es \<noteq> []" and "length (pulseTimes es) < 2 ^ 31"
    and "gapsWithin (unat (COIN_PROCESSING_DELAY s)) (pulseTimes es)"
    and "\<exists>t\<in>set (tickTimes es). last (pulseTimes es) + unat (COIN_PROCESSING_DELAY s) < t"
    and "\<forall>e\<in>set es. eventTime e < hd (pulseTimes es) + 2 ^ 32"
  shows "let N = int (length (pulseTimes es));
             cents = pulseValues ! nat N;
             s' = coinRun (map Whole es) s
         in coinPulseCount s' = 0
          \<and> (if N < 7 \<and> 0 < cents
              then credit s' = credit s + real_of_int cents / 100
                 \<and> out s' = out s @
                     [Log (LogCoinProcessing N),
                      Log (LogCoinAccepted N cents (credit s + real_of_int cents / 100)),
                      Persist (StoredCredit (credit s + real_of_int cents / 100)),
                      Sound CoinTone]
              else credit s' = credit s
                 \<and> out s' = out s @
                     [Log (LogCoinProcessing N),
                      Log (if N < 7 then LogCoinZeroValue N else LogCoinRejected N)])"
proof -
  let ?N = "int (length (pulseTimes es))"
  let ?p = "last (pulseTimes es)"
  let ?s1 = "s\<lparr>coinPulseCount := ?N, lastCoinPulseTime := millisAt ?p\<rparr>"
  from wholeRun_from_idle [OF assms(1,2,3,5,6,7)] obtain t
    where t: "?p + unat (COIN_PROCESSING_DELAY s) < t" "t < ?p + 2 ^ 32"
      and run: "wholeRun es s = processAcceptedCoin (millisAt t) ?s1"
    by blast
  have "lastCoinPulseTime ?s1 = millisAt ?p" "COIN_PROCESSING_DELAY ?s1 = COIN_PROCESSING_DELAY s"
    by simp_all
  with t have late: "COIN_PROCESSING_DELAY s < millisAt t - millisAt ?p"
    using processAcceptedCoin_late(1) [of ?s1 ?p t] by simp
  from assms(3) have pos: "0 < ?N" by simp
  have len: "int (length pulseValues) = 7" by (simp add: pulseValues_def)
  have whole: "coinRun (map Whole es) s = wholeRun es s" by (simp add: wholeRun_def)
  show ?thesis
    unfolding Let_def whole run
    using late pos
    by (simp add: processAcceptedCoin_def Let_def logMessage_def emit_def len)
qed

lemma burst_facts:
  "coinPulseCount initialMachine = 0"
  "unat (COIN_PROCESSING_DELAY initialMachine) = 150"
  "map eventTime threePulses = [900, 1000, 1005, 1040, 1080, 1100, 1200, 1250, 1260]"
  "pulseTimes threePulses = [1000, 1040, 1080]"
  "tickTimes threePulses = [900, 1005, 1100, 1200, 1250, 1260]"
  "map eventTime strayPulse = [5000, 5100, 5200]"
  "pulseTimes strayPulse = [5000]"
  "tickTimes strayPulse = [5100, 5200]"
  "credit initialMachine = 0" "out initialMachine = []"
  by code_simp+

lemma coin_group_uninterrupted_examples:
  "coinPulseCount initialMachine = 0
   \<and> unat (COIN_PROCESSING_DELAY initialMachine) = 150
   \<and> map eventTime threePulses = [900, 1000, 1005, 1040, 1080, 1100, 1200, 1250, 1260]
   \<and> pulseTimes threePulses = [1000, 1040, 1080]
   \<and> tickTimes threePulses = [900, 1005, 1100, 1200, 1250, 1260]
   \<and> coinPulseCount (coinRun (map Whole threePulses) initialMachine) = 0
   \<and> credit (coinRun (map Whole threePulses) initialMachine) = 1 / 5
   \<and> out (coinRun (map Whole threePulses) initialMachine) =
        [Log (LogCoinProcessing 3), Log (LogCoinAccepted 3 20 (1 / 5)),
         Persist (StoredCredit (1 / 5)), Sound CoinTone]
   \<and> map eventTime strayPulse = [5000, 5100, 5200]
   \<and> pulseTimes strayPulse = [5000] \<and> tickTimes strayPulse = [5100, 5200]
   \<and> credit (coinRun (map Whole strayPulse) initialMachine) = 0
   \<and> out (coinRun (map Whole strayPulse) initialMachine) = [Log (LogCoinProcessing 1), Log (LogCoinZeroValue 1)]"
proof -
  note f = burst_facts
  have a: "sorted (map eventTime threePulses)" "pulseTimes threePulses \<noteq> []"
    "length (pulseTimes threePulses) < 2 ^ 31"
    "gapsWithin (unat (COIN_PROCESSING_DELAY initialMachine)) (pulseTimes threePulses)"
    "\<exists>t\<in>set (tickTimes threePulses).
       last (pulseTimes threePulses) + unat (COIN_PROCESSING_DELAY initialMachine) < t"
    unfolding f by simp_all
  have b: "\<forall>e\<in>set threePulses. eventTime e < hd (pulseTimes threePulses) + 2 ^ 32"
  proof
    fix e assume "e \<in> set threePulses"
    then have "eventTime e \<in> set (map eventTime threePulses)" by simp
    then show "eventTime e < hd (pulseTimes threePulses) + 2 ^ 32" unfolding f by auto
  qed
  have c: "sorted (map eventTime strayPulse)" "pulseTimes strayPulse \<noteq> []"
    "length (pulseTimes strayPulse) < 2 ^ 31"
    "gapsWithin (unat (COIN_PROCESSING_DELAY initialMachine)) (pulseTimes strayPulse)"
    "\<exists>t\<in>set (tickTimes strayPulse).
       last (pulseTimes strayPulse) + unat (COIN_PROCESSING_DELAY initialMachine) < t"
    unfolding f by simp_all
  have d: "\<forall>e\<in>set strayPulse. eventTime e < hd (pulseTimes strayPulse) + 2 ^ 32"
  proof
    fix e assume "e \<in> set strayPulse"
    then have "eventTime e \<in> set (map eventTime strayPulse)" by simp
    then show "eventTime e < hd (pulseTimes strayPulse) + 2 ^ 32" unfolding f by auto
  qed
  show ?thesis
    using coin_group_uninterrupted [OF f(1) a b] coin_group_uninterrupted [OF f(1) c d] f
    by (simp add: Let_def pulseValues_def)
qed

text \<open>
  C4. The grouping does not hold when a pulse lands inside the guard of
  \<open>processAcceptedCoin\<close>, which reads \<open>millis()\<close> and \<open>lastCoinPulseTime\<close> before
  interrupts are masked, although the function is documented to "group them into a
  single coin event" and masks interrupts for the drain itself. Three pulses arrive
  40 ms apart, well within the delay of 150 ms, and the loop ticks 170 ms after the last
  of them. A call reads \<open>millis()\<close> at 1039 ms; the second pulse lands at 1040 ms; the
  call reads \<open>lastCoinPulseTime = 1040\<close>. The unsigned difference \<open>1039 - 1040\<close> wraps
  to \<open>2 ^ 32 - 1\<close>, the guard holds and the counter is drained with two pulses: 10 cents
  are credited. The third pulse is drained on its own at the later tick and discarded,
  its table value being 0. The group of three, worth 20 cents, has been drained twice
  and credited with 10 cents. The same happens with the readings in the other order,
  when two pulses are a full delay apart: the call reads the stale
  \<open>lastCoinPulseTime = 1000\<close>, the second pulse lands at 1150 ms, and \<open>millis()\<close> reads
  1151.
\<close>

theorem coin_group_split_by_interrupt:
  "coinPulseCount initialMachine = 0
   \<and> unat (COIN_PROCESSING_DELAY initialMachine) = 150
   \<and> stepPulses racedBurst = [1000, 1040, 1080]
   \<and> gapsWithin 150 (stepPulses racedBurst)
   \<and> pulseValues ! 3 = 20
   \<and> millisAt 1039 - millisAt 1040 = 4294967295
   \<and> credit (coinRun racedBurst initialMachine) = 1 / 10
   \<and> out (coinRun racedBurst initialMachine) =
        [Log (LogCoinProcessing 2), Log (LogCoinAccepted 2 10 (1 / 10)),
         Persist (StoredCredit (1 / 10)), Sound CoinTone,
         Log (LogCoinProcessing 1), Log (LogCoinZeroValue 1)]
   \<and> stepPulses staleBurst = [1000, 1150, 1190]
   \<and> gapsWithin 150 (stepPulses staleBurst)
   \<and> credit (coinRun staleBurst initialMachine) = 1 / 10
   \<and> out (coinRun staleBurst initialMachine) =
        [Log (LogCoinProcessing 2), Log (LogCoinAccepted 2 10 (1 / 10)),
         Persist (StoredCredit (1 / 10)), Sound CoinTone,
         Log (LogCoinProcessing 1), Log (LogCoinZeroValue 1)]"
  by code_simp


end
